theory Spec2Isabelle
  imports Complex_Main "HOL-Library.AList"
begin

section \<open>JavaScript strings and numbers\<close>

text \<open>
  Template literals render a number in decimal (\<^verbatim>\<open>`${variant.width}w`\<close>), and
  \<open>Array.prototype.join\<close> puts a separator between the elements.
\<close>

definition digit_char :: "nat \<Rightarrow> char" where
  "digit_char d = ''0123456789'' ! d"

function decimal :: "nat \<Rightarrow> string \<Rightarrow> string" where
  "decimal n acc =
     (let acc' = digit_char (n mod 10) # acc
      in if n < 10 then acc' else decimal (n div 10) acc')"
  by pat_completeness auto
termination
  by (relation "measure fst") auto

definition number_to_string :: "int \<Rightarrow> string" where
  "number_to_string i =
     (if 0 \<le> i then decimal (nat i) [] else CHR ''-'' # decimal (nat (- i)) [])"

fun join_with :: "string \<Rightarrow> string list \<Rightarrow> string" where
  "join_with sep [] = []"
| "join_with sep [x] = x"
| "join_with sep (x # y # ys) = x @ sep @ join_with sep (y # ys)"

text \<open>\<^verbatim>\<open>s.startsWith("/")\<close>\<close>

definition starts_with_slash :: "string \<Rightarrow> bool" where
  "starts_with_slash s = (case s of [] \<Rightarrow> False | c # _ \<Rightarrow> c = CHR ''/'')"

section \<open>The POSIX functions of node:path\<close>

text \<open>
  \<open>resolve\<close>, \<open>join\<close>, \<open>dirname\<close> and \<open>parse\<close> belong to Node, not to the repository.
  They are modelled after Node's POSIX implementation: a path is cut at every
  \<open>/\<close>; empty components and \<open>.\<close> are dropped, \<open>..\<close> removes the component before
  it (and is kept in front of a relative path only). \<open>resolve\<close> reads its arguments
  from the right up to the first absolute one and falls back on the working directory
  \<open>cwd\<close> of the process.
\<close>

fun split_slash :: "string \<Rightarrow> string list" where
  "split_slash [] = [[]]"
| "split_slash (c # cs) =
     (if c = CHR ''/'' then [] # split_slash cs
      else (case split_slash cs of [] \<Rightarrow> [[c]] | s # ss \<Rightarrow> (c # s) # ss))"

text \<open>One component pushed on the stack of kept components (its top is the head).\<close>

definition norm_step :: "bool \<Rightarrow> string list \<Rightarrow> string \<Rightarrow> string list" where
  "norm_step allowAboveRoot stk seg =
     (if seg = [] \<or> seg = ''.'' then stk
      else if seg = ''..'' then
        (case stk of
           [] \<Rightarrow> (if allowAboveRoot then [''..''] else [])
         | t # ts \<Rightarrow>
             if t = ''..'' then (if allowAboveRoot then ''..'' # stk else stk) else ts)
      else seg # stk)"

definition normalizeSegments :: "bool \<Rightarrow> string list \<Rightarrow> string list" where
  "normalizeSegments allowAboveRoot segs = rev (foldl (norm_step allowAboveRoot) [] segs)"

definition normalizeString :: "bool \<Rightarrow> string \<Rightarrow> string" where
  "normalizeString allowAboveRoot p =
     join_with ''/'' (normalizeSegments allowAboveRoot (split_slash p))"

text \<open>
  The arguments \<open>resolve\<close> uses, given last argument first with the working directory
  at the very end: empty ones are skipped, an absolute one ends the search.
\<close>

fun resolve_pick :: "string list \<Rightarrow> string list" where
  "resolve_pick [] = []"
| "resolve_pick (p # ps) =
     (if p = [] then resolve_pick ps
      else if starts_with_slash p then [p]
      else resolve_pick ps @ [p])"

definition resolve :: "string \<Rightarrow> string list \<Rightarrow> string" where
  "resolve cwd args =
     (let chosen = resolve_pick (rev (cwd # args));
          absolute = (case chosen of [] \<Rightarrow> False | p # _ \<Rightarrow> starts_with_slash p);
          r = normalizeString (\<not> absolute) (concat (map (\<lambda>p. p @ ''/'') chosen))
      in if absolute then ''/'' @ r else if r = [] then ''.'' else r)"

definition normalize :: "string \<Rightarrow> string" where
  "normalize p =
     (if p = [] then ''.''
      else
        let absolute = starts_with_slash p;
            trailing = (last p = CHR ''/'');
            r = normalizeString (\<not> absolute) p
        in if r = [] then (if absolute then ''/'' else if trailing then ''./'' else ''.'')
           else (if absolute then ''/'' else []) @ r @ (if trailing then ''/'' else []))"

definition path_join :: "string list \<Rightarrow> string" where
  "path_join args =
     (let given = filter (\<lambda>a. a \<noteq> []) args
      in if given = [] then ''.'' else normalize (join_with ''/'' given))"

text \<open>
  \<open>dirname\<close> looks from the right, at the indices \<open>length p - 1\<close> down to 1, for the
  first \<open>/\<close> that has a character other than \<open>/\<close> to its right.
\<close>

fun dirname_end :: "string \<Rightarrow> nat \<Rightarrow> bool \<Rightarrow> nat option" where
  "dirname_end p 0 matchedSlash = None"
| "dirname_end p (Suc i) matchedSlash =
     (if p ! Suc i = CHR ''/''
      then (if \<not> matchedSlash then Some (Suc i) else dirname_end p i True)
      else dirname_end p i False)"

definition dirname :: "string \<Rightarrow> string" where
  "dirname p =
     (if p = [] then ''.''
      else
        (case dirname_end p (length p - 1) True of
           None \<Rightarrow> (if starts_with_slash p then ''/'' else ''.'')
         | Some e \<Rightarrow> if starts_with_slash p \<and> e = 1 then ''//'' else take e p))"

text \<open>
  \<open>parse(p).name\<close>: the last component of the path without its extension. The
  extension starts at the last dot of the component, unless that dot is its first
  character or the component is \<open>..\<close>.
\<close>

definition name_of_base :: "string \<Rightarrow> string" where
  "name_of_base b =
     (case dropWhile (\<lambda>c. c \<noteq> CHR ''.'') (rev b) of
        [] \<Rightarrow> b
      | _ # front \<Rightarrow> if front = [] \<or> b = ''..'' then b else rev front)"

definition parse_name :: "string \<Rightarrow> string" where
  "parse_name p =
     (case filter (\<lambda>s. s \<noteq> []) (split_slash p) of
        [] \<Rightarrow> []
      | s # ss \<Rightarrow> name_of_base (last (s # ss)))"

text \<open>A component that normalisation keeps as it is.\<close>

definition plain :: "string \<Rightarrow> bool" where
  "plain seg \<longleftrightarrow> seg \<noteq> [] \<and> seg \<noteq> ''.'' \<and> seg \<noteq> ''..'' \<and> CHR ''/'' \<notin> set seg"

section \<open>The time-bounded cache (src/cache.js)\<close>

text \<open>
  The class \<open>Cache\<close> wraps a Keyv instance over an in-memory \<open>Map\<close>:
  \<^verbatim>\<open>
  constructor(ttl) { this.#ttl = ttl; this.#store = new Keyv({ ttl, store: new Map() }); }
  \<close>
  Keyv is a library outside the repository. Its behaviour (version 5) is modelled
  here: \<open>set\<close> stores the value with \<open>expires = now + ttl\<close> (no expiry when the ttl is
  0), \<open>get\<close> removes an entry whose \<open>expires\<close> lies in the past and answers undefined,
  \<open>delete\<close> answers whether the key was there. The \<open>Map\<close> keeps insertion order, so
  the store is an association list. Every operation reads the clock at one instant,
  the argument \<open>now\<close> (milliseconds, as \<open>Date.now()\<close> gives them).

  Keyv keeps its entries in a namespace, \<open>keyv\<close> unless another one is configured:
  the key of the \<open>Map\<close> is the given key behind the prefix \<open>keyv:\<close>, and a given key
  that starts with this prefix already is taken as it is.
  \<^verbatim>\<open>
  _getKeyPrefix(key) {
    if (key.startsWith(`${this._namespace}:`)) return key;
    return `${this._namespace}:${key}`;
  }
  \<close>
\<close>

definition keyPrefix :: "string \<Rightarrow> string" where
  "keyPrefix key = (if take 5 key = ''keyv:'' then key else ''keyv:'' @ key)"

record 'a keyv_item =
  item :: 'a
  expires :: "int option"

type_synonym 'a keyv = "(string \<times> 'a keyv_item) list"

definition keyv_set :: "int \<Rightarrow> int \<Rightarrow> string \<Rightarrow> 'a \<Rightarrow> 'a keyv \<Rightarrow> 'a keyv" where
  "keyv_set now t key v s =
     AList.update (keyPrefix key)
       \<lparr>item = v, expires = (if t = 0 then None else Some (now + t))\<rparr> s"

definition keyv_get :: "int \<Rightarrow> string \<Rightarrow> 'a keyv \<Rightarrow> 'a option \<times> 'a keyv" where
  "keyv_get now key s =
     (case map_of s (keyPrefix key) of
        None \<Rightarrow> (None, s)
      | Some it \<Rightarrow>
          (case expires it of
             None \<Rightarrow> (Some (item it), s)
           | Some x \<Rightarrow>
               if now > x then (None, AList.delete (keyPrefix key) s) else (Some (item it), s)))"

definition keyv_delete :: "string \<Rightarrow> 'a keyv \<Rightarrow> bool \<times> 'a keyv" where
  "keyv_delete key s = (map_of s (keyPrefix key) \<noteq> None, AList.delete (keyPrefix key) s)"

text \<open>What \<open>Cache.set\<close> hands to Keyv: \<^verbatim>\<open>{ value, timestamp: Date.now() }\<close>.\<close>

record 'v cache_entry =
  evalue :: 'v
  timestamp :: int

text \<open>The private fields \<open>#store\<close>, \<open>#ttl\<close> and \<open>#size\<close>.\<close>

record 'v cache =
  store :: "'v cache_entry keyv"
  ttl :: int
  csize :: int

definition Cache :: "int \<Rightarrow> 'v cache" where
  "Cache t = \<lparr>store = [], ttl = t, csize = 0\<rparr>"

text \<open>
  \<^verbatim>\<open>
  async set(key, value) {
    await this.#store.set(key, { value, timestamp: Date.now() });
    this.#size++;
  }
  \<close>
  There is no check of the key. \<open>cache_set\<close> is the call with a key that is a string.
\<close>

definition cache_set :: "int \<Rightarrow> string \<Rightarrow> 'v \<Rightarrow> 'v cache \<Rightarrow> 'v cache" where
  "cache_set now key v c =
     c\<lparr>store := keyv_set now (ttl c) key \<lparr>evalue = v, timestamp = now\<rparr> (store c),
       csize := csize c + 1\<rparr>"

text \<open>
  The call with a key that may be \<open>null\<close>, which is the key \<open>None\<close>. Keyv's
  \<open>_getKeyPrefix\<close> reads \<open>key.startsWith\<close>, which throws a TypeError on \<open>null\<close>; the
  \<open>await\<close> in \<open>Cache.set\<close> rejects with it, and the line \<open>this.#size++\<close> is not reached.
  The answer is the message of the rejection, if there is one, and the cache after
  the call.
\<close>

definition cache_set_nullable ::
  "int \<Rightarrow> string option \<Rightarrow> 'v \<Rightarrow> 'v cache \<Rightarrow> string option \<times> 'v cache" where
  "cache_set_nullable now key v c =
     (case key of
        None \<Rightarrow> (Some ''Cannot read properties of null (reading 'startsWith')'', c)
      | Some k \<Rightarrow> (None, cache_set now k v c))"

text \<open>\<^verbatim>\<open>#isExpired(timestamp) { return Date.now() - timestamp > this.#ttl; }\<close>\<close>

definition isExpired :: "'v cache \<Rightarrow> int \<Rightarrow> int \<Rightarrow> bool" where
  "isExpired c now ts \<longleftrightarrow> now - ts > ttl c"

text \<open>
  \<^verbatim>\<open>
  async delete(key) {
    const deleted = await this.#store.delete(key);
    if (deleted) { this.#size--; }
    return deleted;
  }
  \<close>
\<close>

definition cache_delete :: "string \<Rightarrow> 'v cache \<Rightarrow> bool \<times> 'v cache" where
  "cache_delete key c =
     (case keyv_delete key (store c) of
        (deleted, s) \<Rightarrow>
          (deleted, c\<lparr>store := s, csize := (if deleted then csize c - 1 else csize c)\<rparr>))"

text \<open>
  \<^verbatim>\<open>
  async get(key) {
    const entry = await this.#store.get(key);
    if (!entry) return null;
    if (this.#isExpired(entry.timestamp)) { await this.delete(key); return null; }
    return entry.value;
  }
  \<close>
  The answer \<open>None\<close> is JavaScript's \<open>null\<close>.
\<close>

definition cache_get :: "int \<Rightarrow> string \<Rightarrow> 'v cache \<Rightarrow> 'v option \<times> 'v cache" where
  "cache_get now key c =
     (case keyv_get now key (store c) of
        (None, s) \<Rightarrow> (None, c\<lparr>store := s\<rparr>)
      | (Some entry, s) \<Rightarrow>
          if isExpired c now (timestamp entry)
          then (None, snd (cache_delete key (c\<lparr>store := s\<rparr>)))
          else (Some (evalue entry), c\<lparr>store := s\<rparr>))"

text \<open>\<^verbatim>\<open>async has(key) { return (await this.get(key)) !== null; }\<close>\<close>

definition cache_has :: "int \<Rightarrow> string \<Rightarrow> 'v cache \<Rightarrow> bool \<times> 'v cache" where
  "cache_has now key c = (case cache_get now key c of (r, c') \<Rightarrow> (r \<noteq> None, c'))"

text \<open>\<^verbatim>\<open>async clear() { await this.#store.clear(); this.#size = 0; }\<close>\<close>

definition cache_clear :: "'v cache \<Rightarrow> 'v cache" where
  "cache_clear c = c\<lparr>store := [], csize := 0\<rparr>"

section \<open>The world outside the program\<close>

text \<open>
  The program reads the file system through \<open>file-type\<close> and \<open>sharp\<close>, and it reads the
  clock. Their answers are the parameters of the model:
  \<^item> \<open>fileTypeFromFile\<close> rejects with a message (\<open>Inl\<close>), finds no known type
    (\<open>Inr None\<close>) or finds the type with the extension \<open>ext\<close>;
  \<^item> \<open>sharp_metadata\<close> rejects or gives the width and the height of the source;
  \<^item> \<open>toFile\<close> stands for \<^verbatim>\<open>image.clone().resize(..).<format>(..).toFile(outputPath)\<close>:
    it gets the source, the width, the height, the format, the quality and the
    output path, and answers the message of the rejection if there is one;
  \<^item> \<open>clock\<close> gives the time of every cache operation of a run: the \<open>n\<close>-th of them
    reads \<open>clock n\<close> from \<open>Date.now()\<close>;
  \<^item> \<open>cwd\<close> is the working directory of the process.
\<close>

record image_metadata =
  mwidth :: int
  mheight :: int

record world =
  fileTypeFromFile :: "string \<Rightarrow> string + string option"
  sharp_metadata :: "string \<Rightarrow> string + image_metadata"
  toFile :: "string \<Rightarrow> int \<Rightarrow> int option \<Rightarrow> string \<Rightarrow> int \<Rightarrow> string \<Rightarrow> string option"
  clock :: "nat \<Rightarrow> int"
  cwd :: string

section \<open>The variant generator (src/processor.js)\<close>

text \<open>
  The options of a plugin whose construction went through, with the numbers that
  are pixels, percent or milliseconds as integers. One entry of \<open>sizes\<close> is
  \<^verbatim>\<open>{ width, suffix }\<close>.
\<close>

record size_spec =
  swidth :: int
  suffix :: string

record options =
  outputDir :: string
  publicPath :: string
  formats :: "string list"
  quality :: int
  sizes :: "size_spec list"
  concurrency :: int
  cacheTimeout :: int

text \<open>One generated file: \<^verbatim>\<open>{ width, height, format, path, url }\<close>.\<close>

record variant =
  vwidth :: int
  vheight :: "int option"
  vformat :: string
  vpath :: string
  url :: string

text \<open>
  \<^verbatim>\<open>Math.round((metadata.height * width) / metadata.width)\<close>. \<open>Math.round\<close> rounds to
  the nearest integer, a half upwards. For a divisor 0 the quotient is no finite
  number, which is the height \<open>None\<close>. (Pixel counts are far below \<open>2^53\<close>, where
  the floating-point quotient rounds as the exact one.)
\<close>

definition math_round_div :: "int \<Rightarrow> int \<Rightarrow> int option" where
  "math_round_div a b = (if b = 0 then None else Some ((2 * a + b) div (2 * b)))"

text \<open>
  \<^verbatim>\<open>
  async #createVariant(image, metadata, { name, size, format, outputDir }) {
    const { width: targetWidth, suffix } = size;
    const width = Math.min(targetWidth, metadata.width);
    const height = Math.round((metadata.height * width) / metadata.width);
    const filename = `${name}-${suffix}.${format}`;
    const outputPath = join(outputDir, filename);
    ... await processor.toFile(outputPath);
    return { width, height, format, path: outputPath,
             url: `${this.options.publicPath}/${filename}` };
  }
  \<close>
\<close>

definition createVariant ::
  "world \<Rightarrow> options \<Rightarrow> string \<Rightarrow> image_metadata \<Rightarrow> string \<Rightarrow> size_spec \<Rightarrow> string \<Rightarrow> string
     \<Rightarrow> string + variant" where
  "createVariant w opts imagePath meta name sz format outDir =
     (let width = min (swidth sz) (mwidth meta);
          height = math_round_div (mheight meta * width) (mwidth meta);
          filename = name @ ''-'' @ suffix sz @ ''.'' @ format;
          outputPath = path_join [outDir, filename]
      in case toFile w imagePath width height format (quality opts) outputPath of
           Some err \<Rightarrow> Inl err
         | None \<Rightarrow>
             Inr \<lparr>vwidth = width, vheight = height, vformat = format, vpath = outputPath,
                  url = publicPath opts @ ''/'' @ filename\<rparr>)"

text \<open>A loop that awaits one job after the other and stops at the first rejection.\<close>

fun collect :: "('a \<Rightarrow> string + 'b) \<Rightarrow> 'a list \<Rightarrow> string + 'b list" where
  "collect f [] = Inr []"
| "collect f (x # xs) =
     (case f x of
        Inl err \<Rightarrow> Inl err
      | Inr y \<Rightarrow> (case collect f xs of Inl err \<Rightarrow> Inl err | Inr ys \<Rightarrow> Inr (y # ys)))"

text \<open>
  \<^verbatim>\<open>
  for (const size of this.options.sizes) {
    for (const format of this.options.formats) {
      variants.push(await this.#createVariant(image, metadata, { name, size, format, outputDir }));
    } }
  \<close>
\<close>

definition size_format_pairs :: "options \<Rightarrow> (size_spec \<times> string) list" where
  "size_format_pairs opts =
     concat (map (\<lambda>sz. map (\<lambda>format. (sz, format)) (formats opts)) (sizes opts))"

definition generateVariants ::
  "world \<Rightarrow> options \<Rightarrow> image_metadata \<Rightarrow> string \<Rightarrow> string \<Rightarrow> string + variant list" where
  "generateVariants w opts meta imagePath outDir =
     (let name = parse_name imagePath
      in collect (\<lambda>(sz, format). createVariant w opts imagePath meta name sz format outDir)
           (size_format_pairs opts))"

text \<open>\<^verbatim>\<open>variants.map((variant) => `${variant.url} ${variant.width}w`).join(", ")\<close>\<close>

definition generateSrcset :: "variant list \<Rightarrow> string" where
  "generateSrcset vs = join_with '', '' (map (\<lambda>v. url v @ '' '' @ number_to_string (vwidth v) @ ''w'') vs)"

definition breakpoints :: "(int \<times> string) list" where
  "breakpoints = [(640, ''100vw''), (1024, ''50vw''), (1920, ''33vw'')]"

definition generateSizes :: "variant list \<Rightarrow> string" where
  "generateSizes vs =
     join_with '', ''
       (map (\<lambda>(mx, sz). ''(max-width: '' @ number_to_string mx @ ''px) '' @ sz) breakpoints
        @ [''100vw''])"

text \<open>What \<open>process\<close> returns.\<close>

record process_result =
  r_srcset :: string
  r_sizes :: string
  r_width :: int
  r_height :: int
  r_format :: string
  r_variants :: "variant list"

definition supported_types :: "string list" where
  "supported_types = [''jpg'', ''jpeg'', ''png'', ''webp'', ''avif'']"

text \<open>
  \<^verbatim>\<open>
  async process(imagePath, outputDir) {
    const type = await fileTypeFromFile(imagePath);
    if (!type || !["jpg", "jpeg", "png", "webp", "avif"].includes(type.ext)) {
      throw new Error(`Unsupported image type: ${type?.ext || "unknown"}`);
    }
    const image = sharp(imagePath);
    const metadata = await image.metadata();
    const variants = await this.#generateVariants(image, metadata, imagePath, outputDir);
    const srcset = this.#generateSrcset(variants);
    return { srcset, sizes: this.#generateSizes(variants), width: metadata.width,
             height: metadata.height, format: type.ext, variants };
  }
  \<close>
  A rejection is \<open>Inl\<close> of the message of the error.
\<close>

definition process :: "world \<Rightarrow> options \<Rightarrow> string \<Rightarrow> string \<Rightarrow> string + process_result" where
  "process w opts imagePath outDir =
     (case fileTypeFromFile w imagePath of
        Inl err \<Rightarrow> Inl err
      | Inr None \<Rightarrow> Inl ''Unsupported image type: unknown''
      | Inr (Some ext) \<Rightarrow>
          if ext \<notin> set supported_types
          then Inl (''Unsupported image type: '' @ (if ext = [] then ''unknown'' else ext))
          else
            (case sharp_metadata w imagePath of
               Inl err \<Rightarrow> Inl err
             | Inr meta \<Rightarrow>
                 (case generateVariants w opts meta imagePath outDir of
                    Inl err \<Rightarrow> Inl err
                  | Inr vs \<Rightarrow>
                      Inr \<lparr>r_srcset = generateSrcset vs, r_sizes = generateSizes vs,
                           r_width = mwidth meta, r_height = mheight meta,
                           r_format = ext, r_variants = vs\<rparr>)))"

section \<open>Document nodes and the context (src/utils.js)\<close>

text \<open>
  A node of the document is \<^verbatim>\<open>{ type, attrs?, content? }\<close>. The value of an attribute
  is a string, an integer number, a boolean or \<open>null\<close>; an attribute that is not there
  reads as \<open>undefined\<close>. An object keeps the order in which its keys were added, so
  \<open>attrs\<close> is an association list. Every node of the tree is an object of its own:
  no object occurs at two places of a tree.
\<close>

datatype attr_value = AStr string | ANum int | ABool bool | ANull

type_synonym attrs = "(string \<times> attr_value) list"

datatype node = Node (ntype: string) (nattrs: "attrs option") (ncontent: "node list option")

text \<open>What \<open>!v\<close> negates, and what a template literal prints.\<close>

fun truthy :: "attr_value \<Rightarrow> bool" where
  "truthy (AStr s) = (s \<noteq> [])"
| "truthy (ANum n) = (n \<noteq> 0)"
| "truthy (ABool b) = b"
| "truthy ANull = False"

fun to_string :: "attr_value \<Rightarrow> string" where
  "to_string (AStr s) = s"
| "to_string (ANum n) = number_to_string n"
| "to_string (ABool b) = (if b then ''true'' else ''false'')"
| "to_string ANull = ''null''"

text \<open>
  The object spread \<^verbatim>\<open>{ ...a, ...b }\<close>: the keys of \<open>a\<close> in their order, with the value
  \<open>b\<close> gives them where it has the key, then the keys only \<open>b\<close> has.
\<close>

definition spread :: "attrs \<Rightarrow> attrs \<Rightarrow> attrs" where
  "spread a b = foldl (\<lambda>acc (k, v). AList.update k v acc) a b"

text \<open>
  The context of a pass, \<^verbatim>\<open>{ resourcePath, currentFile, errors }\<close>. The array
  \<open>errors\<close> is written to, so it is a part of the state below.
\<close>

record "context" =
  resourcePath :: string
  currentFile :: string

text \<open>
  \<^verbatim>\<open>
  export function isImageNode(node) { return node.type === "image" && node.attrs?.src; }
  \<close>
\<close>

definition isImageNode :: "node \<Rightarrow> bool" where
  "isImageNode n \<longleftrightarrow>
     ntype n = ''image'' \<and>
     (case nattrs n of
        None \<Rightarrow> False
      | Some a \<Rightarrow> (case map_of a ''src'' of None \<Rightarrow> False | Some v \<Rightarrow> truthy v))"

text \<open>
  \<^verbatim>\<open>
  export function resolvePublicPath(src, context) {
    if (src.startsWith("/")) {
      return resolve(context.resourcePath, "..", "public", src.slice(1));
    }
    const currentDir = dirname(context.currentFile);
    return resolve(currentDir, src);
  }
  \<close>
  A \<open>src\<close> that is no string has no method \<open>startsWith\<close>: the call throws a TypeError.
\<close>

definition resolvePublicPath :: "world \<Rightarrow> attr_value \<Rightarrow> context \<Rightarrow> string + string" where
  "resolvePublicPath w src ctx =
     (case src of
        AStr s \<Rightarrow>
          if starts_with_slash s
          then Inr (resolve (cwd w) [resourcePath ctx, ''..'', ''public'', drop 1 s])
          else Inr (resolve (cwd w) [dirname (currentFile ctx), s])
      | _ \<Rightarrow> Inl ''src.startsWith is not a function'')"

text \<open>
  The directory that sources with a leading \<open>/\<close> are resolved in: \<open>public\<close>, beside
  the directory \<open>resourcePath\<close> of the pages.
\<close>

definition public_root :: "world \<Rightarrow> context \<Rightarrow> string" where
  "public_root w ctx = resolve (cwd w) [resourcePath ctx, ''..'', ''public'']"

section \<open>Validation of the options (src/utils.js, src/plugin.js)\<close>

text \<open>
  A JavaScript number is a finite number, given by its value, or one of \<open>NaN\<close>,
  \<open>Infinity\<close> and \<open>-Infinity\<close>. (The two zeros are one number here: no operation of
  the program tells them apart.) \<open>lt a b\<close> is the comparison \<^verbatim>\<open>a < b\<close>, which is false
  as soon as one side is \<open>NaN\<close>; \<^verbatim>\<open>a > b\<close> is \<open>lt b a\<close>.
\<close>

datatype number = Finite rat | NaN | Infinity | NegInfinity

fun lt :: "number \<Rightarrow> number \<Rightarrow> bool" where
  "lt NaN b = False"
| "lt a NaN = False"
| "lt (Finite x) (Finite y) = (x < y)"
| "lt (Finite x) Infinity = True"
| "lt (Finite x) NegInfinity = False"
| "lt Infinity b = False"
| "lt NegInfinity NegInfinity = False"
| "lt NegInfinity b = True"

text \<open>\<^verbatim>\<open>a >= b\<close>: neither side is \<open>NaN\<close>, and \<open>a\<close> is not less than \<open>b\<close>.\<close>

definition ge :: "number \<Rightarrow> number \<Rightarrow> bool" where
  "ge a b \<longleftrightarrow> a \<noteq> NaN \<and> b \<noteq> NaN \<and> \<not> lt a b"

text \<open>
  The options are a plain object. Its values are \<open>undefined\<close>, \<open>null\<close>, booleans,
  numbers, strings, arrays and plain objects with the methods of \<open>Object.prototype\<close>;
  functions, symbols and big integers are not among them.
\<close>

datatype jsv =
  JUndefined | JNull | JBool bool | JNum number | JStr string | JArr "jsv list"
  | JObj "(string \<times> jsv) list"

text \<open>What \<open>!v\<close> accepts.\<close>

fun falsy :: "jsv \<Rightarrow> bool" where
  "falsy JUndefined = True"
| "falsy JNull = True"
| "falsy (JBool b) = (\<not> b)"
| "falsy (JNum n) = (n = Finite 0 \<or> n = NaN)"
| "falsy (JStr s) = (s = [])"
| "falsy (JArr xs) = False"
| "falsy (JObj kvs) = False"

text \<open>
  Reading a key of an object (\<open>undefined\<close> when it is not there), and reading a
  property of a value that is neither \<open>undefined\<close> nor \<open>null\<close>: an array and a string
  have a \<open>length\<close>.
\<close>

definition get_field :: "(string \<times> jsv) list \<Rightarrow> string \<Rightarrow> jsv" where
  "get_field obj k = (case map_of obj k of None \<Rightarrow> JUndefined | Some v \<Rightarrow> v)"

fun get_prop :: "jsv \<Rightarrow> string \<Rightarrow> jsv" where
  "get_prop (JObj kvs) k = get_field kvs k"
| "get_prop (JArr xs) k = (if k = ''length'' then JNum (Finite (of_nat (length xs))) else JUndefined)"
| "get_prop (JStr s) k = (if k = ''length'' then JNum (Finite (of_nat (length s))) else JUndefined)"
| "get_prop v k = JUndefined"

text \<open>
  The errors of the construction. \<open>InvalidFormats bad\<close> is the error with the message
  \<^verbatim>\<open>`Invalid formats: ${invalidFormats.join(", ")}`\<close>, and \<open>InvalidConcurrency v\<close> is
  the TypeError of the queue with the message
  \<^verbatim>\<open>`Expected \`concurrency\` to be a number from 1 and up, got \`${v}\` (${typeof v})`\<close>;
  every other error is given by its message.
\<close>

datatype options_error =
  OptionsError string | InvalidFormats "jsv list" | InvalidConcurrency jsv

definition validFormats :: "string list" where
  "validFormats = [''webp'', ''avif'', ''jpeg'', ''png'']"

text \<open>
  The body of \<^verbatim>\<open>sizes.forEach((size) => { ... })\<close>:
  \<^verbatim>\<open>
  if (!size.width || !size.suffix) throw new Error("Each size must have width and suffix");
  if (typeof size.width !== "number" || size.width < 1)
    throw new Error("Size width must be a positive number");
  \<close>
  Reading \<open>size.width\<close> of \<open>undefined\<close> or \<open>null\<close> throws a TypeError.
\<close>

definition validate_size :: "jsv \<Rightarrow> options_error + unit" where
  "validate_size sz =
     (if sz = JUndefined then
        Inl (OptionsError ''Cannot read properties of undefined (reading 'width')'')
      else if sz = JNull then
        Inl (OptionsError ''Cannot read properties of null (reading 'width')'')
      else if falsy (get_prop sz ''width'') \<or> falsy (get_prop sz ''suffix'') then
        Inl (OptionsError ''Each size must have width and suffix'')
      else
        (case get_prop sz ''width'' of
           JNum wd \<Rightarrow>
             if lt wd (Finite 1) then Inl (OptionsError ''Size width must be a positive number'')
             else Inr ()
         | _ \<Rightarrow> Inl (OptionsError ''Size width must be a positive number'')))"

fun forEach :: "('a \<Rightarrow> 'e + unit) \<Rightarrow> 'a list \<Rightarrow> 'e + unit" where
  "forEach f [] = Inr ()"
| "forEach f (x # xs) = (case f x of Inl err \<Rightarrow> Inl err | Inr u \<Rightarrow> forEach f xs)"

text \<open>
  \<^verbatim>\<open>
  export function validateOptions(options) {
    const { outputDir, publicPath, formats, quality, sizes, concurrency } = options;
    if (!outputDir) throw new Error("outputDir is required");
    if (!publicPath) throw new Error("publicPath is required");
    if (!formats || !formats.length) throw new Error("At least one output format is required");
    const validFormats = ["webp", "avif", "jpeg", "png"];
    const invalidFormats = formats.filter((f) => !validFormats.includes(f));
    if (invalidFormats.length) throw new Error(`Invalid formats: ${invalidFormats.join(", ")}`);
    if (quality !== undefined) {
      if (typeof quality !== "number" || quality < 1 || quality > 100)
        throw new Error("Quality must be a number between 1 and 100");
    }
    if (sizes) {
      if (!Array.isArray(sizes)) throw new Error("Sizes must be an array");
      sizes.forEach((size) => { ... });
    }
    if (concurrency !== undefined) {
      if (typeof concurrency !== "number" || concurrency < 1)
        throw new Error("Concurrency must be a positive number");
    }
  }
  \<close>
  Only an array has the method \<open>filter\<close>. \<open>cacheTimeout\<close> is not read.
\<close>

definition validateOptions :: "(string \<times> jsv) list \<Rightarrow> options_error + unit" where
  "validateOptions opts =
     (let outputDir = get_field opts ''outputDir'';
          publicPath = get_field opts ''publicPath'';
          formats = get_field opts ''formats'';
          quality = get_field opts ''quality'';
          sizes = get_field opts ''sizes'';
          concurrency = get_field opts ''concurrency''
      in
      if falsy outputDir then Inl (OptionsError ''outputDir is required'')
      else if falsy publicPath then Inl (OptionsError ''publicPath is required'')
      else if falsy formats \<or> falsy (get_prop formats ''length'') then
        Inl (OptionsError ''At least one output format is required'')
      else
        (case formats of
           JArr fs \<Rightarrow>
             let invalidFormats = filter (\<lambda>f. f \<notin> set (map JStr validFormats)) fs in
             if invalidFormats \<noteq> [] then Inl (InvalidFormats invalidFormats)
             else if quality \<noteq> JUndefined \<and>
                     (case quality of
                        JNum q \<Rightarrow> lt q (Finite 1) \<or> lt (Finite 100) q
                      | _ \<Rightarrow> True) then
               Inl (OptionsError ''Quality must be a number between 1 and 100'')
             else
               (case (if falsy sizes then Inr ()
                      else (case sizes of
                              JArr ss \<Rightarrow> forEach validate_size ss
                            | _ \<Rightarrow> Inl (OptionsError ''Sizes must be an array''))) of
                  Inl err \<Rightarrow> Inl err
                | Inr u \<Rightarrow>
                    if concurrency \<noteq> JUndefined \<and>
                       (case concurrency of JNum c \<Rightarrow> lt c (Finite 1) | _ \<Rightarrow> True) then
                      Inl (OptionsError ''Concurrency must be a positive number'')
                    else Inr ())
         | _ \<Rightarrow> Inl (OptionsError ''formats.filter is not a function'')))"

text \<open>
  The queue is a \<open>PQueue\<close> of the library p-queue, outside the repository. Its
  constructor checks the concurrency it is given:
  \<^verbatim>\<open>
  if (!(typeof newConcurrency === 'number' && newConcurrency >= 1)) {
    throw new TypeError(`Expected \`concurrency\` to be a number from 1 and up, ...`);
  }
  \<close>
\<close>

definition PQueue :: "jsv \<Rightarrow> options_error + unit" where
  "PQueue newConcurrency =
     (case newConcurrency of
        JNum c \<Rightarrow> if ge c (Finite 1) then Inr () else Inl (InvalidConcurrency newConcurrency)
      | _ \<Rightarrow> Inl (InvalidConcurrency newConcurrency))"

text \<open>
  The constructor of the plugin lays the given options over the defaults,
  validates the result and builds the processor, the cache and the queue from it:
  \<^verbatim>\<open>
  this.options = { outputDir: ".image-cache", publicPath: "/images", formats: ["webp"],
                   quality: 80, sizes: [...], concurrency: 4,
                   cacheTimeout: 7 * 24 * 60 * 60 * 1000, ...options };
  validateOptions(this.options);
  this.#processor = new ImageProcessor(this.options);
  this.#cache = new Cache(this.options.cacheTimeout);
  this.#queue = new PQueue({ concurrency: this.options.concurrency });
  \<close>
  The constructors of \<open>ImageProcessor\<close> and \<open>Cache\<close> check nothing.
\<close>

definition default_options :: "(string \<times> jsv) list" where
  "default_options =
     [(''outputDir'', JStr ''.image-cache''), (''publicPath'', JStr ''/images''),
      (''formats'', JArr [JStr ''webp'']), (''quality'', JNum (Finite 80)),
      (''sizes'', JArr [JObj [(''width'', JNum (Finite 640)), (''suffix'', JStr ''sm'')],
                         JObj [(''width'', JNum (Finite 1024)), (''suffix'', JStr ''md'')],
                         JObj [(''width'', JNum (Finite 1920)), (''suffix'', JStr ''lg'')]]),
      (''concurrency'', JNum (Finite 4)), (''cacheTimeout'', JNum (Finite 604800000))]"

definition merge_options :: "(string \<times> jsv) list \<Rightarrow> (string \<times> jsv) list" where
  "merge_options given = foldl (\<lambda>acc (k, v). AList.update k v acc) default_options given"

definition construct :: "(string \<times> jsv) list \<Rightarrow> options_error + (string \<times> jsv) list" where
  "construct given =
     (let opts = merge_options given
      in case validateOptions opts of
           Inl err \<Rightarrow> Inl err
         | Inr u \<Rightarrow>
             (case PQueue (get_field opts ''concurrency'') of
                Inl err \<Rightarrow> Inl err
              | Inr u \<Rightarrow> Inr opts))"


text \<open>
  What the construction asks of each field, in the words of the configuration
  surface, with what it lets pass written out:
  \<^item> \<open>outputDir\<close> and \<open>publicPath\<close> are truthy;
  \<^item> \<open>formats\<close> is an array that is not empty, of the four known formats;
  \<^item> \<open>quality\<close> is \<open>undefined\<close>, or a number from 1 to 100, integer or not, or \<open>NaN\<close>;
  \<^item> \<open>sizes\<close> is falsy, or an array of sizes each with a truthy \<open>suffix\<close> and a \<open>width\<close>
    that is a number not below 1, integer or not, or \<open>Infinity\<close>;
  \<^item> \<open>concurrency\<close> is a number not below 1, integer or not, or \<open>Infinity\<close>;
  \<^item> nothing is asked of \<open>cacheTimeout\<close> or of any other field.
\<close>

definition size_ok :: "jsv \<Rightarrow> bool" where
  "size_ok sz \<longleftrightarrow>
     sz \<noteq> JUndefined \<and> sz \<noteq> JNull \<and> \<not> falsy (get_prop sz ''suffix'') \<and>
     (case get_prop sz ''width'' of
        JNum (Finite wd) \<Rightarrow> 1 \<le> wd
      | JNum Infinity \<Rightarrow> True
      | _ \<Rightarrow> False)"

definition field_ok :: "(string \<times> jsv) list \<Rightarrow> string \<Rightarrow> bool" where
  "field_ok opts f =
     (if f = ''outputDir'' then \<not> falsy (get_field opts ''outputDir'')
      else if f = ''publicPath'' then \<not> falsy (get_field opts ''publicPath'')
      else if f = ''formats'' then
        (case get_field opts ''formats'' of
           JArr fs \<Rightarrow> fs \<noteq> [] \<and> list_all (\<lambda>x. x \<in> set (map JStr validFormats)) fs
         | _ \<Rightarrow> False)
      else if f = ''quality'' then
        (case get_field opts ''quality'' of
           JUndefined \<Rightarrow> True
         | JNum (Finite q) \<Rightarrow> 1 \<le> q \<and> q \<le> 100
         | JNum NaN \<Rightarrow> True
         | _ \<Rightarrow> False)
      else if f = ''sizes'' then
        (case get_field opts ''sizes'' of JArr ss \<Rightarrow> list_all size_ok ss | v \<Rightarrow> falsy v)
      else if f = ''concurrency'' then
        (case get_field opts ''concurrency'' of
           JNum (Finite c) \<Rightarrow> 1 \<le> c
         | JNum Infinity \<Rightarrow> True
         | _ \<Rightarrow> False)
      else True)"

definition accepted :: "(string \<times> jsv) list \<Rightarrow> bool" where
  "accepted opts \<longleftrightarrow>
     list_all (field_ok opts)
       [''outputDir'', ''publicPath'', ''formats'', ''quality'', ''sizes'', ''concurrency'']"

text \<open>
  What \<open>validateOptions\<close> alone lets pass: the same, but that it takes a
  \<open>concurrency\<close> that is \<open>undefined\<close> or \<open>NaN\<close> as well, which the queue rejects.
\<close>

definition checked :: "(string \<times> jsv) list \<Rightarrow> string \<Rightarrow> bool" where
  "checked opts f =
     (if f = ''concurrency'' then
        (case get_field opts ''concurrency'' of
           JUndefined \<Rightarrow> True
         | JNum (Finite c) \<Rightarrow> 1 \<le> c
         | JNum NaN \<Rightarrow> True
         | JNum Infinity \<Rightarrow> True
         | _ \<Rightarrow> False)
      else field_ok opts f)"

definition all_checked :: "(string \<times> jsv) list \<Rightarrow> bool" where
  "all_checked opts \<longleftrightarrow>
     list_all (checked opts)
       [''outputDir'', ''publicPath'', ''formats'', ''quality'', ''sizes'', ''concurrency'']"

text \<open>The field an error speaks of.\<close>

definition offending_field :: "options_error \<Rightarrow> string option" where
  "offending_field err =
     (case err of
        InvalidFormats bad \<Rightarrow> Some ''formats''
      | InvalidConcurrency v \<Rightarrow> Some ''concurrency''
      | OptionsError m \<Rightarrow>
          if m = ''outputDir is required'' then Some ''outputDir''
          else if m = ''publicPath is required'' then Some ''publicPath''
          else if m = ''At least one output format is required'' then Some ''formats''
          else if m = ''formats.filter is not a function'' then Some ''formats''
          else if m = ''Quality must be a number between 1 and 100'' then Some ''quality''
          else if m = ''Sizes must be an array'' then Some ''sizes''
          else if m = ''Each size must have width and suffix'' then Some ''sizes''
          else if m = ''Size width must be a positive number'' then Some ''sizes''
          else if m = ''Cannot read properties of undefined (reading 'width')'' then Some ''sizes''
          else if m = ''Cannot read properties of null (reading 'width')'' then Some ''sizes''
          else if m = ''Concurrency must be a positive number'' then Some ''concurrency''
          else None)"

section \<open>The plugin (src/plugin.js)\<close>

text \<open>
  The state a pass works on: the private fields \<open>#cache\<close> and \<open>#processed\<close> of the
  plugin (a \<open>Set\<close>, in the order of insertion), the array \<open>context.errors\<close>, the number
  of cache operations done so far (the \<open>n\<close>-th of them happens at the time \<open>clock n\<close>),
  and the log of the calls of \<open>ImageProcessor.process\<close> with the path each one got.
  The queue runs the one job it is given at a time, since every \<open>add\<close> is awaited
  before the next node is looked at.
\<close>

record error_record =
  message :: string

record plugin_state =
  cache :: "attrs cache"
  processed :: "attr_value list"
  errors :: "error_record list"
  ticks :: nat
  invocations :: "string list"

definition new_plugin :: "options \<Rightarrow> plugin_state" where
  "new_plugin opts =
     \<lparr>cache = Cache (cacheTimeout opts), processed = [], errors = [], ticks = 0,
      invocations = []\<rparr>"

text \<open>
  \<open>addError\<close> comes with the base class \<open>ProcessorPlugin\<close> of the content collector:
  it appends a record with the message to \<open>context.errors\<close>.
\<close>

definition addError :: "plugin_state \<Rightarrow> string \<Rightarrow> plugin_state" where
  "addError st msg = st\<lparr>errors := errors st @ [\<lparr>message = msg\<rparr>]\<rparr>"

text \<open>\<open>Set.add\<close>\<close>

definition set_add :: "'a \<Rightarrow> 'a list \<Rightarrow> 'a list" where
  "set_add x xs = (if x \<in> set xs then xs else xs @ [x])"

text \<open>
  The attributes a finished job gives to the node and to the cache:
  \<^verbatim>\<open>
  const attrs = { ...node.attrs, srcset: variants.srcset, sizes: variants.sizes,
                  width: variants.width, height: variants.height, originalSrc: src };
  \<close>
\<close>

definition processed_attrs :: "attrs \<Rightarrow> process_result \<Rightarrow> attr_value \<Rightarrow> attrs" where
  "processed_attrs a r src =
     spread a
       [(''srcset'', AStr (r_srcset r)), (''sizes'', AStr (r_sizes r)),
        (''width'', ANum (r_width r)), (''height'', ANum (r_height r)),
        (''originalSrc'', src)]"

text \<open>
  The body of the \<open>try\<close> of \<open>#processImage\<close>, for the attributes \<open>a\<close> of the node and its
  \<open>src\<close>. It answers the new attributes of the node, or the message of what was thrown.
  \<^verbatim>\<open>
  const imagePath = resolvePublicPath(src, context);
  const cacheKey = `image:${imagePath}`;
  const hasCached = await this.#cache.has(cacheKey);
  if (hasCached) {
    const cachedData = await this.#cache.get(cacheKey);
    node.attrs = { ...node.attrs, ...cachedData };
    return;
  }
  const result = await this.#queue.add(async () => {
    const variants = await this.#processor.process(
      imagePath, join(context.resourcePath, "..", this.options.outputDir));
    const attrs = { ...node.attrs, srcset: ..., originalSrc: src };
    await this.#cache.set(cacheKey, attrs);
    this.#processed.add(src);
    return attrs;
  });
  node.attrs = result;
  \<close>
\<close>

definition tryProcessImage ::
  "world \<Rightarrow> options \<Rightarrow> context \<Rightarrow> attrs \<Rightarrow> attr_value \<Rightarrow> plugin_state
     \<Rightarrow> (string + attrs) \<times> plugin_state" where
  "tryProcessImage w opts ctx a src st =
     (case resolvePublicPath w src ctx of
        Inl err \<Rightarrow> (Inl err, st)
      | Inr imagePath \<Rightarrow>
          let cacheKey = ''image:'' @ imagePath in
          (case cache_has (clock w (ticks st)) cacheKey (cache st) of
             (True, c1) \<Rightarrow>
               (case cache_get (clock w (ticks st + 1)) cacheKey c1 of
                  (cachedData, c2) \<Rightarrow>
                    (Inr (spread a (case cachedData of None \<Rightarrow> [] | Some d \<Rightarrow> d)),
                     st\<lparr>cache := c2, ticks := ticks st + 2\<rparr>))
           | (False, c1) \<Rightarrow>
               let st1 = st\<lparr>cache := c1, ticks := ticks st + 1,
                          invocations := invocations st @ [imagePath]\<rparr>
               in
               (case process w opts imagePath (path_join [resourcePath ctx, ''..'', outputDir opts]) of
                  Inl err \<Rightarrow> (Inl err, st1)
                | Inr variants \<Rightarrow>
                    let attrs = processed_attrs a variants src in
                    (Inr attrs,
                     st1\<lparr>cache := cache_set (clock w (ticks st + 1)) cacheKey attrs c1,
                         ticks := ticks st + 2,
                         processed := set_add src (processed st)\<rparr>))))"

text \<open>
  \<^verbatim>\<open>
  async #processImage(node, context) {
    const { src } = node.attrs;
    if (!src || this.#processed.has(src)) return;
    try { ... }
    catch (err) {
      this.addError(context, `Failed to process image ${src}: ${err.message}`);
    }
  }
  \<close>
  The function is called for image nodes only, which have attributes.
\<close>

definition processImage ::
  "world \<Rightarrow> options \<Rightarrow> context \<Rightarrow> attrs \<Rightarrow> plugin_state \<Rightarrow> attrs \<times> plugin_state" where
  "processImage w opts ctx a st =
     (case map_of a ''src'' of
        None \<Rightarrow> (a, st)
      | Some src \<Rightarrow>
          if \<not> truthy src \<or> src \<in> set (processed st) then (a, st)
          else
            (case tryProcessImage w opts ctx a src st of
               (Inl err, st') \<Rightarrow>
                 (a, addError st' (''Failed to process image '' @ to_string src @ '': '' @ err))
             | (Inr a', st') \<Rightarrow> (a', st')))"

text \<open>
  \<^verbatim>\<open>
  async #processNode(node, context) {
    if (isImageNode(node)) { await this.#processImage(node, context); }
    if (node.content) {
      for (const child of node.content) { await this.#processNode(child, context); }
    }
  }
  \<close>
\<close>

fun processNode ::
    "world \<Rightarrow> options \<Rightarrow> context \<Rightarrow> node \<Rightarrow> plugin_state \<Rightarrow> node \<times> plugin_state"
  and processChildren ::
    "world \<Rightarrow> options \<Rightarrow> context \<Rightarrow> node list \<Rightarrow> plugin_state \<Rightarrow> node list \<times> plugin_state"
  where
  "processNode w opts ctx (Node t a c) st =
     (case (if isImageNode (Node t a c)
            then (case a of
                    None \<Rightarrow> (a, st)
                  | Some x \<Rightarrow>
                      (case processImage w opts ctx x st of (x', st') \<Rightarrow> (Some x', st')))
            else (a, st)) of
        (a', st1) \<Rightarrow>
          (case c of
             None \<Rightarrow> (Node t a' None, st1)
           | Some cs \<Rightarrow>
               (case processChildren w opts ctx cs st1 of
                  (cs', st2) \<Rightarrow> (Node t a' (Some cs'), st2))))"
| "processChildren w opts ctx [] st = ([], st)"
| "processChildren w opts ctx (n # ns) st =
     (case processNode w opts ctx n st of
        (n', st1) \<Rightarrow>
          (case processChildren w opts ctx ns st1 of
             (ns', st2) \<Rightarrow> (n' # ns', st2)))"

text \<open>
  \<^verbatim>\<open>
  async processContent(content, context) {
    if (!content || content.type !== "doc") return content;
    try { await this.#processNode(content, context); return content; }
    catch (err) { this.addError(context, err); return content; }
  }
  \<close>
  The content \<open>None\<close> is \<open>null\<close> or \<open>undefined\<close>. Nothing in \<open>#processNode\<close> throws on
  a tree of nodes as typed here, so the \<open>catch\<close> has no case.
\<close>

definition processContent ::
  "world \<Rightarrow> options \<Rightarrow> context \<Rightarrow> node option \<Rightarrow> plugin_state \<Rightarrow> node option \<times> plugin_state" where
  "processContent w opts ctx content st =
     (case content of
        None \<Rightarrow> (None, st)
      | Some n \<Rightarrow>
          if ntype n \<noteq> ''doc'' then (Some n, st)
          else (case processNode w opts ctx n st of (n', st') \<Rightarrow> (Some n', st')))"

text \<open>
  The sources of the image nodes of a tree, in the order in which a pass meets them.
\<close>

fun image_sources :: "node \<Rightarrow> attr_value list"
  and image_sources_list :: "node list \<Rightarrow> attr_value list" where
  "image_sources (Node t a c) =
     (if isImageNode (Node t a c)
      then (case a of
              None \<Rightarrow> []
            | Some x \<Rightarrow> (case map_of x ''src'' of None \<Rightarrow> [] | Some src \<Rightarrow> [src]))
      else [])
     @ (case c of None \<Rightarrow> [] | Some cs \<Rightarrow> image_sources_list cs)"
| "image_sources_list [] = []"
| "image_sources_list (n # ns) = image_sources n @ image_sources_list ns"

section \<open>Invariants of a pass\<close>

text \<open>
  The attributes of a node are an object: every key occurs once.
\<close>

fun well_formed :: "node \<Rightarrow> bool" and well_formed_list :: "node list \<Rightarrow> bool" where
  "well_formed (Node t a c) \<longleftrightarrow>
     (case a of None \<Rightarrow> True | Some x \<Rightarrow> distinct (map fst x)) \<and>
     (case c of None \<Rightarrow> True | Some cs \<Rightarrow> well_formed_list cs)"
| "well_formed_list [] \<longleftrightarrow> True"
| "well_formed_list (n # ns) \<longleftrightarrow> well_formed n \<and> well_formed_list ns"

text \<open>
  No entry expires while the plugin runs: no two readings of the clock lie further
  apart than the lifetime of an entry.
\<close>

definition never_expires :: "world \<Rightarrow> options \<Rightarrow> bool" where
  "never_expires w opts \<longleftrightarrow> (\<forall>i j. clock w i - clock w j \<le> cacheTimeout opts)"

text \<open>The attributes the store holds for a key, expired or not.\<close>

definition cached :: "plugin_state \<Rightarrow> string \<Rightarrow> attrs option" where
  "cached st key =
     map_option (\<lambda>e. evalue (item e)) (map_of (store (cache st)) (keyPrefix key))"

text \<open>
  What every state of a plugin satisfies that has run since its construction under
  the clock of \<open>w\<close>: the cache has the lifetime of the options, every entry was
  stamped at a reading of the clock and expires as \<open>Cache.set\<close> sets it, and its
  value is an object whose \<open>src\<close> is in \<open>#processed\<close>.
\<close>

definition consistent :: "world \<Rightarrow> options \<Rightarrow> plugin_state \<Rightarrow> bool" where
  "consistent w opts st \<longleftrightarrow>
     ttl (cache st) = cacheTimeout opts \<and>
     (\<forall>key e. map_of (store (cache st)) key = Some e \<longrightarrow>
        (\<exists>j. timestamp (item e) = clock w j) \<and>
        expires e = (if cacheTimeout opts = 0 then None
                     else Some (timestamp (item e) + cacheTimeout opts)) \<and>
        distinct (map fst (evalue (item e))) \<and>
        (\<exists>src. map_of (evalue (item e)) ''src'' = Some src \<and> src \<in> set (processed st)))"

text \<open>
  A source is settled when it is in \<open>#processed\<close>, or when it cannot succeed: where
  its path resolves, the variant generator rejects the file and the store has no
  entry for it. A later state extends an earlier one when it has kept the processed
  sources and has no entry for a file that the generator rejects and that had none.
\<close>

definition cannot_succeed :: "world \<Rightarrow> options \<Rightarrow> context \<Rightarrow> attr_value \<Rightarrow> plugin_state \<Rightarrow> bool" where
  "cannot_succeed w opts ctx src st \<longleftrightarrow>
     (\<forall>p. resolvePublicPath w src ctx = Inr p \<longrightarrow>
        (\<exists>err. process w opts p (path_join [resourcePath ctx, ''..'', outputDir opts]) = Inl err) \<and>
        cached st (''image:'' @ p) = None)"

definition settled :: "world \<Rightarrow> options \<Rightarrow> context \<Rightarrow> attr_value \<Rightarrow> plugin_state \<Rightarrow> bool" where
  "settled w opts ctx src st \<longleftrightarrow>
     src \<in> set (processed st) \<or> cannot_succeed w opts ctx src st"

definition extends :: "world \<Rightarrow> options \<Rightarrow> context \<Rightarrow> plugin_state \<Rightarrow> plugin_state \<Rightarrow> bool" where
  "extends w opts ctx st st' \<longleftrightarrow>
     set (processed st) \<subseteq> set (processed st') \<and>
     (\<forall>p. (\<exists>err. process w opts p (path_join [resourcePath ctx, ''..'', outputDir opts]) = Inl err) \<longrightarrow>
          cached st (''image:'' @ p) = None \<longrightarrow> cached st' (''image:'' @ p) = None)"

section \<open>Fixtures\<close>

text \<open>
  The configuration and the source image of tests/plugin.test.js: one size of 640
  pixels, the format webp, a source of 1920 x 1080 pixels; every file is a readable
  JPEG, every write succeeds and the clock stands still.
\<close>

definition test_options :: options where
  "test_options =
     \<lparr>outputDir = ''./cache'', publicPath = ''/images'', formats = [''webp''], quality = 80,
      sizes = [\<lparr>swidth = 640, suffix = ''sm''\<rparr>], concurrency = 4,
      cacheTimeout = 604800000\<rparr>"

definition test_metadata :: image_metadata where
  "test_metadata = \<lparr>mwidth = 1920, mheight = 1080\<rparr>"

definition test_world :: world where
  "test_world =
     \<lparr>fileTypeFromFile = (\<lambda>p. Inr (Some ''jpg'')),
      sharp_metadata = (\<lambda>p. Inr test_metadata),
      toFile = (\<lambda>img wd ht fmt q out. None),
      clock = (\<lambda>n. 0),
      cwd = ''/''\<rparr>"

text \<open>
  Two sizes, the second wider than the source, in two formats; and the variants of
  \<open>/site/public/test.jpg\<close> for them.
\<close>

definition two_sizes_options :: options where
  "two_sizes_options =
     test_options\<lparr>formats := [''webp'', ''avif''],
                  sizes := [\<lparr>swidth = 640, suffix = ''sm''\<rparr>, \<lparr>swidth = 4000, suffix = ''xl''\<rparr>]\<rparr>"

definition two_sizes_variants :: "variant list" where
  "two_sizes_variants =
     [\<lparr>vwidth = 640, vheight = Some 360, vformat = ''webp'',
       vpath = ''/site/cache/test-sm.webp'', url = ''/images/test-sm.webp''\<rparr>,
      \<lparr>vwidth = 640, vheight = Some 360, vformat = ''avif'',
       vpath = ''/site/cache/test-sm.avif'', url = ''/images/test-sm.avif''\<rparr>,
      \<lparr>vwidth = 1920, vheight = Some 1080, vformat = ''webp'',
       vpath = ''/site/cache/test-xl.webp'', url = ''/images/test-xl.webp''\<rparr>,
      \<lparr>vwidth = 1920, vheight = Some 1080, vformat = ''avif'',
       vpath = ''/site/cache/test-xl.avif'', url = ''/images/test-xl.avif''\<rparr>]"

text \<open>
  The context of the tests: the pages lie in \<open>/site/pages\<close>, the document is
  \<open>/site/pages/home/content.md\<close>. \<open>image_node src alt\<close> is an image with these two
  attributes, \<open>processed_node\<close> the same image after a successful job in the test
  world (a source called \<open>name\<close> plus extension).
\<close>

definition test_context :: "context" where
  "test_context = \<lparr>resourcePath = ''/site/pages'', currentFile = ''/site/pages/home/content.md''\<rparr>"

definition image_node :: "string \<Rightarrow> string \<Rightarrow> node" where
  "image_node src alt = Node ''image'' (Some [(''src'', AStr src), (''alt'', AStr alt)]) None"

definition test_sizes_attr :: string where
  "test_sizes_attr =
     ''(max-width: 640px) 100vw, (max-width: 1024px) 50vw, (max-width: 1920px) 33vw, 100vw''"

definition processed_node :: "string \<Rightarrow> string \<Rightarrow> string \<Rightarrow> node" where
  "processed_node src alt name =
     Node ''image''
       (Some [(''src'', AStr src), (''alt'', AStr alt),
              (''srcset'', AStr (''/images/'' @ name @ ''-sm.webp 640w'')),
              (''sizes'', AStr test_sizes_attr),
              (''width'', ANum 1920), (''height'', ANum 1080),
              (''originalSrc'', AStr src)])
       None"

definition doc :: "node list \<Rightarrow> node" where
  "doc children = Node ''doc'' None (Some children)"

text \<open>The test world without the file \<open>/site/public/nonexistent.jpg\<close>.\<close>

definition missing_world :: world where
  "missing_world =
     test_world\<lparr>fileTypeFromFile :=
       (\<lambda>p. if p = ''/site/public/nonexistent.jpg''
            then Inl ''ENOENT: no such file or directory''
            else Inr (Some ''jpg''))\<rparr>"

text \<open>
  A cache that keeps an entry for one millisecond, and a clock that reads 0, 0, 1
  and from then on 2.
\<close>

definition short_ttl_options :: options where
  "short_ttl_options = test_options\<lparr>cacheTimeout := 1\<rparr>"

definition race_world :: world where
  "race_world = test_world\<lparr>clock := (\<lambda>n. if n < 2 then 0 else if n = 2 then 1 else 2)\<rparr>"

text \<open>
  Three spellings of the file \<open>/site/public/a.jpg\<close> in one document, and the first
  pass of a new plugin over it with the short-lived cache and the moving clock.
  \<open>cached_first_pass\<close> is the first pass of the test "caches processed images".
\<close>

definition race_doc :: node where
  "race_doc = doc [image_node ''/a.jpg'' ''A'', image_node ''/./a.jpg'' ''B'',
                   image_node ''/x/../a.jpg'' ''C'']"

definition race_first_pass :: "node option \<times> plugin_state" where
  "race_first_pass =
     processContent race_world short_ttl_options test_context (Some race_doc)
       (new_plugin short_ttl_options)"

definition cached_first_pass :: "node option \<times> plugin_state" where
  "cached_first_pass =
     processContent test_world test_options test_context
       (Some (doc [image_node ''/test.jpg'' ''t''])) (new_plugin test_options)"

section \<open>Properties of the cache\<close>

lemma keyPrefix_idem [simp]: "keyPrefix (keyPrefix key) = keyPrefix key"
  by (simp add: keyPrefix_def)

lemma keyPrefix_image [simp]: "keyPrefix (CHR ''i'' # s) = ''keyv:'' @ CHR ''i'' # s"
  by (simp add: keyPrefix_def)

lemma map_of_keyv_set:
  "map_of (keyv_set now t key v s) =
     (map_of s)(keyPrefix key \<mapsto>
        \<lparr>item = v, expires = (if t = 0 then None else Some (now + t))\<rparr>)"
  by (simp add: keyv_set_def update_conv')

lemma ttl_cache_set [simp]: "ttl (cache_set now key v c) = ttl c"
  by (simp add: cache_set_def)

lemma map_of_cache_set:
  "map_of (store (cache_set now key v c)) =
     (map_of (store c))(keyPrefix key \<mapsto>
        \<lparr>item = \<lparr>evalue = v, timestamp = now\<rparr>,
         expires = (if ttl c = 0 then None else Some (now + ttl c))\<rparr>)"
  by (simp add: cache_set_def map_of_keyv_set)

lemma cache_get_fresh:
  assumes "map_of (store c) (keyPrefix key) =
             Some \<lparr>item = \<lparr>evalue = v, timestamp = T\<rparr>, expires = x\<rparr>"
    and "x = (if ttl c = 0 then None else Some (T + ttl c))"
    and "t - T \<le> ttl c"
  shows "cache_get t key c = (Some v, c)"
  using assms by (simp add: cache_get_def keyv_get_def isExpired_def)

lemma cache_get_expired:
  assumes "map_of (store c) (keyPrefix key) =
             Some \<lparr>item = \<lparr>evalue = v, timestamp = T\<rparr>, expires = x\<rparr>"
    and "x = (if ttl c = 0 then None else Some (T + ttl c))"
    and "t - T > ttl c"
  shows "fst (cache_get t key c) = None"
    and "map_of (store (snd (cache_get t key c))) (keyPrefix key) = None"
    and "store (snd (cache_get t key c)) = AList.delete (keyPrefix key) (store c)"
  using assms
  by (auto simp add: cache_get_def keyv_get_def isExpired_def cache_delete_def
      keyv_delete_def delete_conv')

text \<open>
  C4. An entry set at time \<open>T\<close> in a cache of ttl \<open>d\<close> is returned by \<open>get\<close> at every
  read time \<open>t\<close> with \<open>t - T \<le> d\<close>, and the read leaves the cache as it is. At every
  read time with \<open>t - T > d\<close> the answer is absent, and the read itself has removed the
  entry from the underlying store: nothing but a read removes it.
\<close>

theorem cache_ttl_expiry:
  "(t - T \<le> ttl c \<longrightarrow>
      cache_get t key (cache_set T key v c) = (Some v, cache_set T key v c)) \<and>
   (t - T > ttl c \<longrightarrow>
      fst (cache_get t key (cache_set T key v c)) = None \<and>
      map_of (store (snd (cache_get t key (cache_set T key v c)))) (keyPrefix key) = None \<and>
      store (snd (cache_get t key (cache_set T key v c))) =
        AList.delete (keyPrefix key) (store (cache_set T key v c)))"
proof -
  let ?c1 = "cache_set T key v c"
  have m: "map_of (store ?c1) (keyPrefix key) =
      Some \<lparr>item = \<lparr>evalue = v, timestamp = T\<rparr>,
            expires = (if ttl ?c1 = 0 then None else Some (T + ttl ?c1))\<rparr>"
    by (simp add: map_of_cache_set)
  have a: "t - T \<le> ttl c \<longrightarrow> cache_get t key ?c1 = (Some v, ?c1)"
    using cache_get_fresh [OF m refl, of t] by simp
  have b: "t - T > ttl c \<longrightarrow>
           fst (cache_get t key ?c1) = None \<and>
           map_of (store (snd (cache_get t key ?c1))) (keyPrefix key) = None \<and>
           store (snd (cache_get t key ?c1)) = AList.delete (keyPrefix key) (store ?c1)"
    using cache_get_expired [OF m refl, of t] by simp
  from a b show ?thesis by blast
qed

theorem cache_ttl_expiry_witness:
  "cache_get 1100 ''k'' (cache_set 1000 ''k'' ''v'' (Cache 100))
     = (Some ''v'', cache_set 1000 ''k'' ''v'' (Cache 100)) \<and>
   fst (cache_get 1101 ''k'' (cache_set 1000 ''k'' ''v'' (Cache 100))) = None \<and>
   store (snd (cache_get 1101 ''k'' (cache_set 1000 ''k'' ''v'' (Cache 100)))) = []"
  using cache_ttl_expiry [of 1100 1000 "Cache 100" "''k''" "''v''"]
    cache_ttl_expiry [of 1101 1000 "Cache 100" "''k''" "''v''"]
  by (simp add: Cache_def cache_set_def keyv_set_def keyPrefix_def)

text \<open>
  C9, as the code has it. \<open>Cache.set\<close> checks no key and has no error of its own.
  With the key \<open>null\<close> it fails, by the TypeError of Keyv's prefixing, and leaves the
  cache as it was. With every key that is a string, the empty one too, it succeeds,
  persists \<^verbatim>\<open>{ value, timestamp: now }\<close> for the key (in the \<open>Map\<close>, under the key
  with its prefix) and adds one to the counter.
\<close>

theorem cache_set_persists:
  "cache_set_nullable now None v c =
     (Some ''Cannot read properties of null (reading 'startsWith')'', c) \<and>
   fst (cache_set_nullable now (Some key) v c) = None \<and>
   map_of (store (snd (cache_set_nullable now (Some key) v c))) (keyPrefix key) =
     Some \<lparr>item = \<lparr>evalue = v, timestamp = now\<rparr>,
           expires = (if ttl c = 0 then None else Some (now + ttl c))\<rparr> \<and>
   csize (snd (cache_set_nullable now (Some key) v c)) = csize c + 1"
  by (simp add: cache_set_nullable_def map_of_cache_set) (simp add: cache_set_def)

text \<open>
  The empty key is stored like any other: there is no error, and the store holds
  the entry.
\<close>

theorem cache_set_empty_key_counterexample:
  "cache_set_nullable 5 (Some []) ''v'' (Cache 100) =
     (None,
      \<lparr>store = [(''keyv:'', \<lparr>item = \<lparr>evalue = ''v'', timestamp = 5\<rparr>, expires = Some 105\<rparr>)],
       ttl = 100, csize = 1\<rparr>)"
  by (simp add: cache_set_nullable_def cache_set_def Cache_def keyv_set_def keyPrefix_def)

section \<open>Properties of the variant generator\<close>

lemma math_round_div_floor:
  "b \<noteq> 0 \<Longrightarrow> math_round_div a b = Some \<lfloor>(of_int a :: rat) / of_int b + 1 / 2\<rfloor>"
proof -
  assume b: "b \<noteq> 0"
  have "(of_int a :: rat) / of_int b + 1 / 2 = of_int (2 * a + b) / of_int (2 * b)"
    using b by (simp add: field_simps)
  then have "\<lfloor>(of_int a :: rat) / of_int b + 1 / 2\<rfloor> = (2 * a + b) div (2 * b)"
    by (simp only: floor_divide_of_int_eq)
  with b show ?thesis by (simp add: math_round_div_def)
qed

lemma createVariant_dimensions:
  assumes "createVariant w opts img meta name sz fmt out = Inr v"
  shows "vwidth v = min (swidth sz) (mwidth meta)"
    and "vheight v = math_round_div (mheight meta * min (swidth sz) (mwidth meta)) (mwidth meta)"
    and "vformat v = fmt"
  using assms by (auto simp add: createVariant_def Let_def split: option.splits)

lemma collect_list_all2:
  "collect f xs = Inr ys \<Longrightarrow> list_all2 (\<lambda>x y. f x = Inr y) xs ys"
  by (induction xs arbitrary: ys) (auto split: sum.splits)

lemma collect_succeeds:
  "(\<And>x. x \<in> set xs \<Longrightarrow> \<exists>y. f x = Inr y) \<Longrightarrow> \<exists>ys. collect f xs = Inr ys"
proof (induction xs)
  case Nil
  show ?case by simp
next
  case (Cons x xs)
  from Cons.prems [of x] obtain y where y: "f x = Inr y" by auto
  from Cons.IH Cons.prems obtain ys where ys: "collect f xs = Inr ys" by auto
  show ?case by (simp add: y ys)
qed

text \<open>
  C5. For a source of width \<open>w > 0\<close> and height \<open>h\<close>: the requests are the
  configured sizes, each with every configured format, in this order. When
  \<open>generateVariants\<close> returns, it returns one variant for each request, in the order of
  the requests, and the variant of a request of target width \<open>t\<close> has the width
  \<open>min t w\<close>, the height \<open>h * min t w / w\<close> rounded to the nearest integer (a half
  upwards) and the requested format; it is never wider than the source. It returns
  whenever no write fails.
\<close>

theorem variant_width_height:
  assumes "0 < mwidth meta"
  shows "(generateVariants w opts meta img out = Inr vs \<longrightarrow>
            list_all2
              (\<lambda>request v.
                  vwidth v = min (swidth (fst request)) (mwidth meta) \<and>
                  vheight v =
                    Some \<lfloor>(of_int (mheight meta * min (swidth (fst request)) (mwidth meta)) :: rat)
                            / of_int (mwidth meta) + 1 / 2\<rfloor> \<and>
                  vwidth v \<le> mwidth meta \<and>
                  vformat v = snd request)
              (concat (map (\<lambda>sz. map (\<lambda>fmt. (sz, fmt)) (formats opts)) (sizes opts))) vs) \<and>
         ((\<forall>i wd ht fmt q p. toFile w i wd ht fmt q p = None) \<longrightarrow>
            (\<exists>vs. generateVariants w opts meta img out = Inr vs))"
proof (intro conjI impI)
  assume g: "generateVariants w opts meta img out = Inr vs"
  have nz: "mwidth meta \<noteq> 0" using assms by simp
  let ?f = "\<lambda>(sz, format). createVariant w opts img meta (parse_name img) sz format out"
  from g have "list_all2 (\<lambda>x y. ?f x = Inr y) (size_format_pairs opts) vs"
    unfolding generateVariants_def Let_def by (rule collect_list_all2)
  then have "list_all2
      (\<lambda>request v.
          vwidth v = min (swidth (fst request)) (mwidth meta) \<and>
          vheight v =
            Some \<lfloor>(of_int (mheight meta * min (swidth (fst request)) (mwidth meta)) :: rat)
                    / of_int (mwidth meta) + 1 / 2\<rfloor> \<and>
          vwidth v \<le> mwidth meta \<and>
          vformat v = snd request)
      (size_format_pairs opts) vs"
  proof (rule list_all2_mono)
    fix x v
    assume c: "?f x = Inr v"
    then have cv: "createVariant w opts img meta (parse_name img) (fst x) (snd x) out = Inr v"
      by (simp add: case_prod_beta)
    show "vwidth v = min (swidth (fst x)) (mwidth meta) \<and>
          vheight v =
            Some \<lfloor>(of_int (mheight meta * min (swidth (fst x)) (mwidth meta)) :: rat)
                    / of_int (mwidth meta) + 1 / 2\<rfloor> \<and>
          vwidth v \<le> mwidth meta \<and>
          vformat v = snd x"
      using createVariant_dimensions [OF cv] math_round_div_floor [OF nz]
      by simp
  qed
  then show "list_all2
      (\<lambda>request v.
          vwidth v = min (swidth (fst request)) (mwidth meta) \<and>
          vheight v =
            Some \<lfloor>(of_int (mheight meta * min (swidth (fst request)) (mwidth meta)) :: rat)
                    / of_int (mwidth meta) + 1 / 2\<rfloor> \<and>
          vwidth v \<le> mwidth meta \<and>
          vformat v = snd request)
      (concat (map (\<lambda>sz. map (\<lambda>fmt. (sz, fmt)) (formats opts)) (sizes opts))) vs"
    by (simp only: size_format_pairs_def)
next
  assume ok: "\<forall>i wd ht fmt q p. toFile w i wd ht fmt q p = None"
  show "\<exists>vs. generateVariants w opts meta img out = Inr vs"
    unfolding generateVariants_def Let_def
  proof (rule collect_succeeds)
    fix x :: "size_spec \<times> string"
    show "\<exists>y. (case x of (sz, format) \<Rightarrow>
              createVariant w opts img meta (parse_name img) sz format out) = Inr y"
      using ok by (simp add: case_prod_beta createVariant_def Let_def)
  qed
qed

theorem variant_width_height_witness:
  "0 < mwidth test_metadata \<and>
   (\<forall>i wd ht fmt q p. toFile test_world i wd ht fmt q p = None) \<and>
   generateVariants test_world two_sizes_options test_metadata
       ''/site/public/test.jpg'' ''/site/cache'' = Inr two_sizes_variants \<and>
   list_all2
     (\<lambda>request v.
         vwidth v = min (swidth (fst request)) 1920 \<and>
         vheight v =
           Some \<lfloor>(of_int (1080 * min (swidth (fst request)) 1920) :: rat) / of_int 1920 + 1 / 2\<rfloor> \<and>
         vwidth v \<le> 1920 \<and>
         vformat v = snd request)
     [(\<lparr>swidth = 640, suffix = ''sm''\<rparr>, ''webp''), (\<lparr>swidth = 640, suffix = ''sm''\<rparr>, ''avif''),
      (\<lparr>swidth = 4000, suffix = ''xl''\<rparr>, ''webp''), (\<lparr>swidth = 4000, suffix = ''xl''\<rparr>, ''avif'')]
     two_sizes_variants"
proof -
  have m: "0 < mwidth test_metadata" by (simp add: test_metadata_def)
  have ok: "\<forall>i wd ht fmt q p. toFile test_world i wd ht fmt q p = None"
    by (simp add: test_world_def)
  have g: "generateVariants test_world two_sizes_options test_metadata
             ''/site/public/test.jpg'' ''/site/cache'' = Inr two_sizes_variants"
    by code_simp
  show ?thesis
    using m ok g
      variant_width_height [OF m, of test_world two_sizes_options
        "''/site/public/test.jpg''" "''/site/cache''" two_sizes_variants]
    by (simp add: test_metadata_def two_sizes_options_def test_options_def)
qed


section \<open>Properties of path resolution\<close>

lemma split_slash_not_Nil [simp]: "split_slash s \<noteq> []"
  by (induction s) (auto split: list.splits)

lemma split_slash_append:
  "split_slash (a @ CHR ''/'' # b) = split_slash a @ split_slash b"
proof (induction a)
  case Nil
  then show ?case by simp
next
  case (Cons c a)
  then show ?case by (cases "split_slash a") auto
qed

lemma split_slash_no_slash: "CHR ''/'' \<notin> set s \<Longrightarrow> split_slash s = [s]"
  by (induction s) auto

lemma split_slash_segments: "seg \<in> set (split_slash s) \<Longrightarrow> CHR ''/'' \<notin> set seg"
proof (induction s arbitrary: seg)
  case Nil
  then show ?case by simp
next
  case (Cons c s)
  then show ?case by (cases "split_slash s") (auto split: if_splits)
qed

lemma split_slash_join:
  "segs \<noteq> [] \<Longrightarrow> \<forall>seg \<in> set segs. CHR ''/'' \<notin> set seg \<Longrightarrow>
     split_slash (join_with ''/'' segs) = segs"
proof (induction "''/''" segs rule: join_with.induct)
  case 1
  then show ?case by simp
next
  case (2 x)
  then show ?case by (simp add: split_slash_no_slash)
next
  case (3 x y ys)
  then show ?case
    using split_slash_append [of x "join_with ''/'' (y # ys)"]
    by (simp add: split_slash_no_slash)
qed

lemma norm_step_skip: "seg = [] \<or> seg = ''.'' \<Longrightarrow> norm_step ab stk seg = stk"
  by (simp add: norm_step_def)

lemma norm_step_up:
  "norm_step False stk ''..'' = (case stk of [] \<Rightarrow> [] | t # ts \<Rightarrow> if t = ''..'' then stk else ts)"
  by (simp add: norm_step_def split: list.splits)

lemma norm_step_push:
  "seg \<noteq> [] \<Longrightarrow> seg \<noteq> ''.'' \<Longrightarrow> seg \<noteq> ''..'' \<Longrightarrow> norm_step ab stk seg = seg # stk"
  by (simp add: norm_step_def)

lemma norm_step_plain:
  assumes "\<forall>t \<in> set stk. plain t" and "CHR ''/'' \<notin> set seg"
  shows "\<forall>t \<in> set (norm_step False stk seg). plain t"
proof -
  consider "seg = [] \<or> seg = ''.''" | "seg = ''..''" | "plain seg"
    using assms(2) unfolding plain_def by blast
  then show ?thesis
  proof cases
    case 1
    then show ?thesis using assms(1) by (simp only: norm_step_skip)
  next
    case 2
    show ?thesis
    proof (cases stk)
      case Nil
      then show ?thesis unfolding 2 norm_step_up by simp
    next
      case (Cons t ts)
      with assms(1) have "plain t" and ts: "\<forall>x \<in> set ts. plain x" by simp_all
      then have "t \<noteq> ''..''" unfolding plain_def by blast
      then show ?thesis using ts Cons unfolding 2 norm_step_up by simp
    qed
  next
    case 3
    then have "norm_step False stk seg = seg # stk"
      unfolding plain_def by (intro norm_step_push) blast+
    then show ?thesis using 3 assms(1) by simp
  qed
qed

lemma foldl_norm_step_plain:
  "\<forall>t \<in> set stk. plain t \<Longrightarrow> \<forall>seg \<in> set segs. CHR ''/'' \<notin> set seg \<Longrightarrow>
     \<forall>t \<in> set (foldl (norm_step False) stk segs). plain t"
proof (induction segs arbitrary: stk)
  case Nil
  then show ?case by simp
next
  case (Cons seg segs)
  have "\<forall>t \<in> set (norm_step False stk seg). plain t"
    using Cons.prems by (intro norm_step_plain) auto
  then show ?case using Cons by simp
qed

lemma foldl_norm_step_of_plain:
  "\<forall>t \<in> set segs. plain t \<Longrightarrow> foldl (norm_step False) stk segs = rev segs @ stk"
proof (induction segs arbitrary: stk)
  case Nil
  then show ?case by simp
next
  case (Cons seg segs)
  from Cons.prems have "plain seg" by simp
  then have "norm_step False stk seg = seg # stk"
    unfolding plain_def by (intro norm_step_push) blast+
  then show ?case using Cons by simp
qed

lemma normalizeSegments_plain:
  "t \<in> set (normalizeSegments False (split_slash p)) \<Longrightarrow> plain t"
  using foldl_norm_step_plain [of "[]" "split_slash p"] split_slash_segments
  by (auto simp add: normalizeSegments_def)

text \<open>Reading a normalised absolute path again gives its components back.\<close>

lemma foldl_norm_step_reread:
  assumes "\<forall>t \<in> set N. plain t"
  shows "foldl (norm_step False) [] (split_slash (''/'' @ join_with ''/'' N)) = rev N"
proof (cases "N = []")
  case True
  then show ?thesis by (simp add: norm_step_def)
next
  case False
  have "split_slash (join_with ''/'' N) = N"
    using False assms by (intro split_slash_join) (auto simp add: plain_def)
  then show ?thesis
    using foldl_norm_step_of_plain [OF assms, of "[]"] by (simp add: norm_step_def)
qed

lemma resolve_pick_absolute:
  "starts_with_slash c \<Longrightarrow>
     \<exists>p ps'. resolve_pick (ps @ [c]) = p # ps' \<and> starts_with_slash p"
proof (induction ps)
  case Nil
  then show ?case by (auto simp add: starts_with_slash_def split: list.splits)
next
  case (Cons a ps)
  then show ?case by auto
qed

lemma starts_with_slash_Cons [simp]: "starts_with_slash (c # s) = (c = CHR ''/'')"
  by (simp add: starts_with_slash_def)

lemma starts_with_slash_Nil [simp]: "\<not> starts_with_slash []"
  by (simp add: starts_with_slash_def)

text \<open>The text \<open>resolve\<close> normalises always ends with a separator.\<close>

lemma joined_ends_with_slash:
  "A \<noteq> [] \<Longrightarrow> \<exists>J0. concat (map (\<lambda>p. p @ ''/'') A) = J0 @ ''/''"
proof (induction A rule: rev_induct)
  case Nil
  then show ?case by simp
next
  case (snoc x xs)
  show ?case by (rule exI [of _ "concat (map (\<lambda>p. p @ ''/'') xs) @ x"]) simp
qed

lemma resolve_absolute:
  assumes "resolve_pick (rev (wd # args)) = A" and "A = p # ps" and "starts_with_slash p"
  shows "resolve wd args =
           ''/'' @ join_with ''/''
             (normalizeSegments False (split_slash (concat (map (\<lambda>p. p @ ''/'') A))))"
  unfolding resolve_def Let_def assms(1)
  using assms(2,3) by (simp add: normalizeString_def)

lemma resolve_pick_snoc_relative:
  "y \<noteq> [] \<Longrightarrow> \<not> starts_with_slash y \<Longrightarrow>
     resolve_pick (rev (wd # xs @ [y])) = resolve_pick (rev (wd # xs)) @ [y]"
  by simp

lemma resolve_step:
  assumes "starts_with_slash wd"
  shows "resolve wd (xs @ [y]) = resolve wd [resolve wd xs, y]"
proof -
  define A where "A = resolve_pick (rev (wd # xs))"
  define J where "J = concat (map (\<lambda>p. p @ ''/'') A)"
  define N where "N = normalizeSegments False (split_slash J)"
  define R where "R = ''/'' @ join_with ''/'' N"
  obtain p ps' where A: "A = p # ps'" and pabs: "starts_with_slash p"
    using resolve_pick_absolute [OF assms, of "rev xs"] by (auto simp add: A_def)
  have R: "resolve wd xs = R"
    unfolding R_def N_def J_def
    by (rule resolve_absolute [OF A_def [symmetric] A pabs])
  have plainN: "\<forall>t \<in> set N. plain t"
    unfolding N_def using normalizeSegments_plain by blast
  have reread: "foldl (norm_step False) [] (split_slash R) = rev N"
    unfolding R_def by (rule foldl_norm_step_reread [OF plainN])
  obtain J0 where J0: "J = J0 @ ''/''"
    using joined_ends_with_slash [of A] A by (auto simp add: J_def)
  have foldJ: "foldl (norm_step False) [] (split_slash J0) = rev N"
  proof -
    have "split_slash J = split_slash J0 @ [[]]"
      using split_slash_append [of J0 "[]"] J0 by simp
    then show ?thesis by (simp add: N_def normalizeSegments_def norm_step_def)
  qed
  have Rne: "R \<noteq> []" and Rabs: "starts_with_slash R" by (simp_all add: R_def)
  show ?thesis
  proof (cases "y = []")
    case True
    have "resolve_pick (rev [wd, R, y]) = [R]"
      using True Rne Rabs by simp
    from resolve_absolute [OF this refl Rabs]
    have "resolve wd [R, y] = ''/'' @ join_with ''/'' (normalizeSegments False (split_slash (R @ ''/'')))"
      by simp
    also have "split_slash (R @ ''/'') = split_slash R @ [[]]"
      using split_slash_append [of R "[]"] by simp
    also have "normalizeSegments False (split_slash R @ [[]]) = N"
      using reread by (simp add: normalizeSegments_def norm_step_def)
    finally have "resolve wd [R, y] = R" by (simp add: R_def)
    moreover have "resolve wd (xs @ [y]) = resolve wd xs"
      using True by (simp add: resolve_def)
    ultimately show ?thesis using R by simp
  next
    case False
    show ?thesis
    proof (cases "starts_with_slash y")
      case True
      then show ?thesis using False by (simp add: resolve_def)
    next
      case rel: False
      have pick: "resolve_pick (rev (wd # xs @ [y])) = A @ [y]"
        unfolding A_def by (rule resolve_pick_snoc_relative [OF False rel])
      have "resolve wd (xs @ [y]) =
          ''/'' @ join_with ''/''
            (normalizeSegments False (split_slash (concat (map (\<lambda>p. p @ ''/'') (A @ [y])))))"
        by (rule resolve_absolute [OF pick _ pabs]) (simp add: A)
      then have L: "resolve wd (xs @ [y]) =
          ''/'' @ join_with ''/'' (normalizeSegments False (split_slash (J @ y @ ''/'')))"
        by (simp add: J_def)
      have "resolve_pick (rev [wd, R, y]) = [R, y]"
        using False rel Rne Rabs by simp
      from resolve_absolute [OF this refl Rabs]
      have RR: "resolve wd [R, y] =
          ''/'' @ join_with ''/'' (normalizeSegments False (split_slash (R @ ''/'' @ y @ ''/'')))"
        by simp
      have s1: "split_slash (J @ y @ ''/'') = split_slash J0 @ split_slash (y @ ''/'')"
        using split_slash_append [of J0 "y @ ''/''"] J0 by simp
      have s2: "split_slash (R @ ''/'' @ y @ ''/'') = split_slash R @ split_slash (y @ ''/'')"
        using split_slash_append [of R "y @ ''/''"] by simp
      have "normalizeSegments False (split_slash (J @ y @ ''/'')) =
            normalizeSegments False (split_slash (R @ ''/'' @ y @ ''/''))"
        by (simp only: s1 s2 normalizeSegments_def foldl_append foldJ reread)
      then show ?thesis using L RR R by simp
    qed
  qed
qed

text \<open>
  C7, as the code has it. A source with a leading \<open>/\<close> is resolved, without that
  \<open>/\<close>, in the directory \<open>public\<close> beside \<open>resourcePath\<close> (\<open>public_root\<close>), not in
  \<open>resourcePath\<close> itself; every other source is resolved in the directory of
  \<open>currentFile\<close>. The working directory of a process is an absolute path.
\<close>

theorem resolvePublicPath_roots:
  assumes "starts_with_slash (cwd w)"
  shows "resolvePublicPath w (AStr s) ctx =
           Inr (if starts_with_slash s
                then resolve (cwd w) [public_root w ctx, drop 1 s]
                else resolve (cwd w) [dirname (currentFile ctx), s])"
  using resolve_step [OF assms, of "[resourcePath ctx, ''..'', ''public'']" "drop 1 s"]
  by (simp add: resolvePublicPath_def public_root_def)

theorem resolvePublicPath_roots_witness:
  "starts_with_slash (cwd test_world) \<and>
   public_root test_world test_context = ''/site/public'' \<and>
   resolvePublicPath test_world (AStr ''/img/test.png'') test_context
     = Inr ''/site/public/img/test.png'' \<and>
   resolvePublicPath test_world (AStr ''../img/test.png'') test_context
     = Inr ''/site/pages/img/test.png''"
proof -
  have h: "starts_with_slash (cwd test_world)" by code_simp
  have p: "public_root test_world test_context = ''/site/public''" by code_simp
  have d: "dirname (currentFile test_context) = ''/site/pages/home''" by code_simp
  have c: "cwd test_world = ''/''" by code_simp
  have r1: "resolve ''/'' [''/site/public'', ''img/test.png''] = ''/site/public/img/test.png''"
    by code_simp
  have r2: "resolve ''/'' [''/site/pages/home'', ''../img/test.png''] = ''/site/pages/img/test.png''"
    by code_simp
  show ?thesis
    using h p resolvePublicPath_roots [OF h, of "''/img/test.png''" test_context]
      resolvePublicPath_roots [OF h, of "''../img/test.png''" test_context]
    by (simp add: p d c r1 r2)
qed

text \<open>
  The source \<open>/test.jpg\<close> with the pages in \<open>/site/pages\<close> is the file
  \<open>/site/public/test.jpg\<close>; read relative to \<open>resourcePath\<close> it would be
  \<open>/site/pages/test.jpg\<close>.
\<close>

theorem resolvePublicPath_counterexample:
  "resolvePublicPath test_world (AStr ''/test.jpg'') test_context = Inr ''/site/public/test.jpg'' \<and>
   resolve (cwd test_world) [resourcePath test_context, drop 1 ''/test.jpg'']
     = ''/site/pages/test.jpg''"
  by code_simp

section \<open>Properties of the validation\<close>

lemma checked_outputDir:
  "checked opts ''outputDir'' \<longleftrightarrow> \<not> falsy (get_field opts ''outputDir'')"
  by (simp add: checked_def field_ok_def)

lemma checked_publicPath:
  "checked opts ''publicPath'' \<longleftrightarrow> \<not> falsy (get_field opts ''publicPath'')"
  by (simp add: checked_def field_ok_def)

lemma checked_formats:
  "checked opts ''formats'' \<longleftrightarrow>
     (case get_field opts ''formats'' of
        JArr fs \<Rightarrow> fs \<noteq> [] \<and> list_all (\<lambda>x. x \<in> set (map JStr validFormats)) fs
      | _ \<Rightarrow> False)"
  by (simp add: checked_def field_ok_def)

lemma checked_quality:
  "checked opts ''quality'' \<longleftrightarrow>
     (case get_field opts ''quality'' of
        JUndefined \<Rightarrow> True
      | JNum (Finite q) \<Rightarrow> 1 \<le> q \<and> q \<le> 100
      | JNum NaN \<Rightarrow> True
      | _ \<Rightarrow> False)"
  by (simp add: checked_def field_ok_def)

lemma checked_sizes:
  "checked opts ''sizes'' \<longleftrightarrow>
     (case get_field opts ''sizes'' of JArr ss \<Rightarrow> list_all size_ok ss | v \<Rightarrow> falsy v)"
  by (simp add: checked_def field_ok_def)

lemma checked_concurrency:
  "checked opts ''concurrency'' \<longleftrightarrow>
     (case get_field opts ''concurrency'' of
        JUndefined \<Rightarrow> True
      | JNum (Finite c) \<Rightarrow> 1 \<le> c
      | JNum NaN \<Rightarrow> True
      | JNum Infinity \<Rightarrow> True
      | _ \<Rightarrow> False)"
  by (simp add: checked_def field_ok_def)

lemmas checked_simps =
  checked_outputDir checked_publicPath checked_formats checked_quality checked_sizes
  checked_concurrency

lemma all_checked_iff:
  "all_checked opts \<longleftrightarrow>
     checked opts ''outputDir'' \<and> checked opts ''publicPath'' \<and> checked opts ''formats'' \<and>
     checked opts ''quality'' \<and> checked opts ''sizes'' \<and> checked opts ''concurrency''"
  by (simp add: all_checked_def)

lemma offending_field_simps:
  "offending_field (InvalidFormats bad) = Some ''formats''"
  "offending_field (OptionsError ''outputDir is required'') = Some ''outputDir''"
  "offending_field (OptionsError ''publicPath is required'') = Some ''publicPath''"
  "offending_field (OptionsError ''At least one output format is required'') = Some ''formats''"
  "offending_field (OptionsError ''formats.filter is not a function'') = Some ''formats''"
  "offending_field (OptionsError ''Quality must be a number between 1 and 100'') = Some ''quality''"
  "offending_field (OptionsError ''Sizes must be an array'') = Some ''sizes''"
  "offending_field (OptionsError ''Each size must have width and suffix'') = Some ''sizes''"
  "offending_field (OptionsError ''Size width must be a positive number'') = Some ''sizes''"
  "offending_field (OptionsError ''Cannot read properties of undefined (reading 'width')'') = Some ''sizes''"
  "offending_field (OptionsError ''Cannot read properties of null (reading 'width')'') = Some ''sizes''"
  "offending_field (OptionsError ''Concurrency must be a positive number'') = Some ''concurrency''"
  by (simp_all add: offending_field_def)

lemma validate_size_cases:
  "(validate_size sz = Inr () \<and> size_ok sz) \<or>
   (\<exists>err. validate_size sz = Inl err \<and> offending_field err = Some ''sizes'' \<and> \<not> size_ok sz)"
proof (cases "sz = JUndefined \<or> sz = JNull")
  case True
  then show ?thesis
    by (auto simp add: validate_size_def size_ok_def offending_field_simps)
next
  case False
  show ?thesis
  proof (cases "falsy (get_prop sz ''width'') \<or> falsy (get_prop sz ''suffix'')")
    case True
    then have "validate_size sz = Inl (OptionsError ''Each size must have width and suffix'')"
      using False by (simp add: validate_size_def)
    moreover have "\<not> size_ok sz"
      using True by (auto simp add: size_ok_def split: jsv.splits number.splits)
    ultimately show ?thesis by (simp add: offending_field_simps)
  next
    case ok: False
    show ?thesis
    proof (cases "get_prop sz ''width''")
      case (JNum wd)
      then show ?thesis using False ok
        by (cases wd) (auto simp add: validate_size_def size_ok_def offending_field_simps)
    qed (use False ok in \<open>simp_all add: validate_size_def size_ok_def offending_field_simps\<close>)
  qed
qed

lemma forEach_validate_size:
  "(forEach validate_size ss = Inr () \<and> list_all size_ok ss) \<or>
   (\<exists>err. forEach validate_size ss = Inl err \<and> offending_field err = Some ''sizes'' \<and>
          \<not> list_all size_ok ss)"
proof (induction ss)
  case Nil
  then show ?case by simp
next
  case (Cons sz ss)
  from validate_size_cases [of sz] show ?case
  proof
    assume "validate_size sz = Inr () \<and> size_ok sz"
    then show ?thesis using Cons by auto
  next
    assume "\<exists>err. validate_size sz = Inl err \<and> offending_field err = Some ''sizes'' \<and> \<not> size_ok sz"
    then show ?thesis by auto
  qed
qed


lemma validateOptions_cases:
  "(validateOptions opts = Inr () \<and> all_checked opts) \<or>
   (\<exists>err f. validateOptions opts = Inl err \<and> offending_field err = Some f \<and>
            \<not> checked opts f)"
proof -
  let ?formats = "get_field opts ''formats''"
  let ?quality = "get_field opts ''quality''"
  let ?sizes = "get_field opts ''sizes''"
  let ?conc = "get_field opts ''concurrency''"
  note defs = validateOptions_def Let_def
  have reject: "validateOptions opts = Inl err \<Longrightarrow> offending_field err = Some f \<Longrightarrow>
      \<not> checked opts f \<Longrightarrow> ?thesis" for err f
    by blast
  show ?thesis
  proof (cases "falsy (get_field opts ''outputDir'')")
    case True
    show ?thesis
      by (rule reject [OF _ offending_field_simps(2)])
         (use True in \<open>simp_all add: defs checked_outputDir\<close>)
  next
    case od: False
    show ?thesis
    proof (cases "falsy (get_field opts ''publicPath'')")
      case True
      show ?thesis
        by (rule reject [OF _ offending_field_simps(3)])
           (use od True in \<open>simp_all add: defs checked_publicPath\<close>)
    next
      case pp: False
      show ?thesis
      proof (cases "falsy ?formats \<or> falsy (get_prop ?formats ''length'')")
        case True
        have "\<not> checked opts ''formats''"
          using True by (auto simp add: checked_formats split: jsv.splits)
        moreover have "validateOptions opts =
            Inl (OptionsError ''At least one output format is required'')"
          using od pp True by (simp add: defs)
        ultimately show ?thesis
          by (intro reject [OF _ offending_field_simps(4)])
      next
        case fm: False
        show ?thesis
        proof (cases "\<exists>fs. ?formats = JArr fs")
          case False
          have "\<not> checked opts ''formats''"
            using False by (auto simp add: checked_formats split: jsv.splits)
          moreover have "validateOptions opts =
              Inl (OptionsError ''formats.filter is not a function'')"
            using od pp fm False by (cases ?formats) (simp_all add: defs)
          ultimately show ?thesis
            by (intro reject [OF _ offending_field_simps(5)])
        next
          case True
          then obtain fs where fs: "?formats = JArr fs" by blast
          with fm have ne: "fs \<noteq> []" by simp
          let ?bad = "filter (\<lambda>f. f \<notin> set (map JStr validFormats)) fs"
          show ?thesis
          proof (cases "?bad = []")
            case False
            have "\<not> checked opts ''formats''"
              using False fs by (auto simp add: checked_formats list_all_iff filter_empty_conv)
            moreover have "validateOptions opts = Inl (InvalidFormats ?bad)"
              using od pp fm fs False by (simp add: defs)
            ultimately show ?thesis
              by (intro reject [OF _ offending_field_simps(1)])
          next
            case good: True
            then have okf: "checked opts ''formats''"
              using fs ne by (auto simp add: checked_formats list_all_iff filter_empty_conv)
            show ?thesis
            proof (cases "checked opts ''quality''")
              case False
              then have q: "?quality \<noteq> JUndefined \<and>
                  (case ?quality of JNum q \<Rightarrow> lt q (Finite 1) \<or> lt (Finite 100) q | _ \<Rightarrow> True)"
                by (auto simp add: checked_quality split: jsv.splits number.splits)
              have "validateOptions opts =
                  Inl (OptionsError ''Quality must be a number between 1 and 100'')"
                using od pp fm fs good q by (simp add: defs)
              with False show ?thesis
                by (intro reject [OF _ offending_field_simps(6)])
            next
              case okq: True
              then have q: "\<not> (?quality \<noteq> JUndefined \<and>
                  (case ?quality of JNum q \<Rightarrow> lt q (Finite 1) \<or> lt (Finite 100) q | _ \<Rightarrow> True))"
                by (auto simp add: checked_quality split: jsv.splits number.splits)
              let ?sz = "if falsy ?sizes then Inr ()
                    else (case ?sizes of
                            JArr ss \<Rightarrow> forEach validate_size ss
                          | _ \<Rightarrow> Inl (OptionsError ''Sizes must be an array''))"
              have v: "validateOptions opts =
                  (case ?sz of
                     Inl err \<Rightarrow> Inl err
                   | Inr u \<Rightarrow>
                       if ?conc \<noteq> JUndefined \<and>
                          (case ?conc of JNum c \<Rightarrow> lt c (Finite 1) | _ \<Rightarrow> True)
                       then Inl (OptionsError ''Concurrency must be a positive number'')
                       else Inr ())"
                using od pp fm fs good q by (simp add: defs del: de_Morgan_conj not_not)
              have sz: "(?sz = Inr () \<and> checked opts ''sizes'') \<or>
                  (\<exists>err. ?sz = Inl err \<and> offending_field err = Some ''sizes'' \<and>
                         \<not> checked opts ''sizes'')"
              proof (cases ?sizes)
                case (JArr ss)
                then show ?thesis
                  using forEach_validate_size [of ss] by (simp add: checked_sizes)
              qed (simp_all add: checked_sizes offending_field_simps)
              then show ?thesis
              proof
                assume "\<exists>err. ?sz = Inl err \<and> offending_field err = Some ''sizes'' \<and>
                         \<not> checked opts ''sizes''"
                then obtain err where e: "?sz = Inl err"
                  and o: "offending_field err = Some ''sizes''"
                  and n: "\<not> checked opts ''sizes''" by blast
                have "validateOptions opts = Inl err" unfolding v e by simp
                then show ?thesis using o n by (rule reject)
              next
                assume s: "?sz = Inr () \<and> checked opts ''sizes''"
                show ?thesis
                proof (cases "checked opts ''concurrency''")
                  case False
                  then have c: "?conc \<noteq> JUndefined \<and>
                      (case ?conc of JNum c \<Rightarrow> lt c (Finite 1) | _ \<Rightarrow> True)"
                    by (auto simp add: checked_concurrency split: jsv.splits number.splits)
                  have "validateOptions opts =
                      Inl (OptionsError ''Concurrency must be a positive number'')"
                    unfolding v using s c by simp
                  with False show ?thesis
                    by (intro reject [OF _ offending_field_simps(12)])
                next
                  case okc: True
                  then have c: "\<not> (?conc \<noteq> JUndefined \<and>
                      (case ?conc of JNum c \<Rightarrow> lt c (Finite 1) | _ \<Rightarrow> True))"
                    by (auto simp add: checked_concurrency split: jsv.splits number.splits)
                  have "validateOptions opts = Inr ()"
                    unfolding v using s c by simp
                  moreover have "all_checked opts"
                    using od pp okf okq s okc
                    by (simp add: all_checked_iff checked_outputDir checked_publicPath)
                  ultimately show ?thesis by blast
                qed
              qed
            qed
          qed
        qed
      qed
    qed
  qed
qed


lemma field_ok_checked: "field_ok opts f \<Longrightarrow> checked opts f"
  by (auto simp add: field_ok_def checked_def split: if_splits jsv.splits number.splits)

text \<open>
  C8, as the code has it. The construction lays the given options over the
  defaults, validates them and builds the queue. It either succeeds, and every
  field is as the construction asks, or throws an error whose message speaks of a
  field that is not. So the construction succeeds exactly when \<open>outputDir\<close> and
  \<open>publicPath\<close> are truthy (a missing one takes its default; one given as empty,
  \<open>null\<close> or \<open>undefined\<close> is rejected), \<open>formats\<close> is a non-empty array of webp,
  avif, jpeg and png, \<open>quality\<close> is \<open>undefined\<close> or a number that is neither below 1
  nor above 100, \<open>sizes\<close> is falsy or an array in which every size has a truthy
  suffix and a width that is a number, not \<open>NaN\<close> and not below 1, and
  \<open>concurrency\<close> is a number, not \<open>NaN\<close> and not below 1. Numbers need not be
  integers, a quality \<open>NaN\<close> is neither below 1 nor above 100, and \<open>cacheTimeout\<close>
  is not validated.
\<close>

theorem construct_accepts_or_names_field:
  "(construct given = Inr (merge_options given) \<and> accepted (merge_options given)) \<or>
   (\<exists>err f. construct given = Inl err \<and> offending_field err = Some f \<and>
            \<not> field_ok (merge_options given) f)"
proof -
  let ?opts = "merge_options given"
  let ?conc = "get_field ?opts ''concurrency''"
  from validateOptions_cases [of ?opts] show ?thesis
  proof
    assume "\<exists>err f. validateOptions ?opts = Inl err \<and> offending_field err = Some f \<and>
                    \<not> checked ?opts f"
    then obtain err f where v: "validateOptions ?opts = Inl err"
      and o: "offending_field err = Some f" and n: "\<not> checked ?opts f"
      by blast
    have "construct given = Inl err" by (simp add: construct_def Let_def v)
    moreover have "\<not> field_ok ?opts f" using n by (rule contrapos_nn) (rule field_ok_checked)
    ultimately show ?thesis using o by blast
  next
    assume "validateOptions ?opts = Inr () \<and> all_checked ?opts"
    then have v: "validateOptions ?opts = Inr ()" and a: "all_checked ?opts" by simp_all
    show ?thesis
    proof (cases "PQueue ?conc")
      case (Inl err)
      then have "construct given = Inl err" by (simp add: construct_def Let_def v)
      moreover from Inl have "offending_field err = Some ''concurrency''"
        and "\<not> field_ok ?opts ''concurrency''"
        by (auto simp add: PQueue_def ge_def field_ok_def offending_field_def
            split: jsv.splits number.splits if_splits)
      ultimately show ?thesis by blast
    next
      case (Inr u)
      then have "construct given = Inr ?opts" by (simp add: construct_def Let_def v)
      moreover from Inr have "field_ok ?opts ''concurrency''"
        by (auto simp add: PQueue_def ge_def field_ok_def split: jsv.splits number.splits if_splits)
      then have "accepted ?opts"
        using a by (simp add: accepted_def all_checked_def checked_def)
      ultimately show ?thesis by blast
    qed
  qed
qed

theorem construct_accepts_or_names_field_witness:
  "construct [(''formats'', JArr [JStr ''invalid-format''])]
     = Inl (InvalidFormats [JStr ''invalid-format'']) \<and>
   \<not> field_ok (merge_options [(''formats'', JArr [JStr ''invalid-format''])]) ''formats'' \<and>
   construct [(''quality'', JNum (Finite 101))]
     = Inl (OptionsError ''Quality must be a number between 1 and 100'') \<and>
   \<not> field_ok (merge_options [(''quality'', JNum (Finite 101))]) ''quality'' \<and>
   construct [(''concurrency'', JNum NaN)] = Inl (InvalidConcurrency (JNum NaN)) \<and>
   \<not> field_ok (merge_options [(''concurrency'', JNum NaN)]) ''concurrency''"
proof -
  have f: "construct [(''formats'', JArr [JStr ''invalid-format''])]
     = Inl (InvalidFormats [JStr ''invalid-format''])"
    by code_simp
  have q: "construct [(''quality'', JNum (Finite 101))]
     = Inl (OptionsError ''Quality must be a number between 1 and 100'')"
    by code_simp
  have c: "construct [(''concurrency'', JNum NaN)] = Inl (InvalidConcurrency (JNum NaN))"
    by code_simp
  show ?thesis
    using construct_accepts_or_names_field [of "[(''formats'', JArr [JStr ''invalid-format''])]"]
      construct_accepts_or_names_field [of "[(''quality'', JNum (Finite 101))]"]
      construct_accepts_or_names_field [of "[(''concurrency'', JNum NaN)]"]
    by (simp add: f q c offending_field_simps offending_field_def)
qed

text \<open>
  A negative \<open>cacheTimeout\<close>, the quality 50.5, the quality \<open>NaN\<close> and no \<open>outputDir\<close>
  at all: each of the four constructions succeeds.
\<close>

theorem construct_counterexample:
  "construct [(''cacheTimeout'', JNum (Finite (- 1)))]
     = Inr (merge_options [(''cacheTimeout'', JNum (Finite (- 1)))]) \<and>
   construct [(''quality'', JNum (Finite (101 / 2)))]
     = Inr (merge_options [(''quality'', JNum (Finite (101 / 2)))]) \<and>
   construct [(''quality'', JNum NaN)] = Inr (merge_options [(''quality'', JNum NaN)]) \<and>
   construct [] = Inr default_options"
  by code_simp

section \<open>Properties of a pass\<close>

text \<open>
  C10. A content that is \<open>null\<close> or \<open>undefined\<close>, or whose root is no \<open>doc\<close>, comes back
  as it is, and the state comes back as it is: no error record, no cache operation,
  no call of the variant generator, whatever images the content holds.
\<close>

theorem processContent_not_doc:
  "content = None \<or> (\<exists>n. content = Some n \<and> ntype n \<noteq> ''doc'') \<Longrightarrow>
     processContent w opts ctx content st = (content, st)"
  by (auto simp add: processContent_def)

theorem processContent_not_doc_witness:
  "processContent test_world test_options test_context None (new_plugin test_options)
     = (None, new_plugin test_options) \<and>
   processContent test_world test_options test_context
       (Some (Node ''section'' None (Some [image_node ''/test.jpg'' ''Test image''])))
       (new_plugin test_options)
     = (Some (Node ''section'' None (Some [image_node ''/test.jpg'' ''Test image''])),
        new_plugin test_options)"
  using processContent_not_doc [of None test_world test_options test_context
      "new_plugin test_options"]
    processContent_not_doc
      [of "Some (Node ''section'' None (Some [image_node ''/test.jpg'' ''Test image'']))"
        test_world test_options test_context "new_plugin test_options"]
  by simp

text \<open>A source that is in \<open>#processed\<close> ends \<open>#processImage\<close> at its first line.\<close>

lemma processImage_processed:
  "map_of a ''src'' = Some src \<Longrightarrow> src \<in> set (processed st) \<Longrightarrow>
     processImage w opts ctx a st = (a, st)"
  by (simp add: processImage_def)

text \<open>
  C1, on the code. Five nodes, each an object of its own, with the source
  \<open>/test.jpg\<close>, in one pass of a new plugin: the variant generator runs once, the
  first node gets the processed attributes, and the four others leave the pass as
  they came, without \<open>srcset\<close> and \<open>sizes\<close>.
\<close>

theorem five_nodes_same_source:
  "processContent test_world test_options test_context
     (Some (doc (replicate 5 (image_node ''/test.jpg'' ''t''))))
     (new_plugin test_options)
   = (Some (doc (processed_node ''/test.jpg'' ''t'' ''test''
                 # replicate 4 (image_node ''/test.jpg'' ''t''))),
      \<lparr>cache = cache_set 0 ''image:/site/public/test.jpg''
                 (the (nattrs (processed_node ''/test.jpg'' ''t'' ''test'')))
                 (Cache 604800000),
       processed = [AStr ''/test.jpg''], errors = [], ticks = 2,
       invocations = [''/site/public/test.jpg'']\<rparr>)"
  by code_simp

text \<open>
  C6, on the code. Two images of one file, written \<open>/a.jpg\<close> and \<open>/./a.jpg\<close>, with the
  texts \<open>A\<close> and \<open>B\<close>. The first is processed and cached with all its attributes; the
  second hits the cache and leaves the pass with the \<open>alt\<close> and the \<open>src\<close> of the first.
\<close>

theorem cache_hit_overwrites_alt:
  "fst (processContent test_world test_options test_context
          (Some (doc [image_node ''/a.jpg'' ''A'', image_node ''/./a.jpg'' ''B'']))
          (new_plugin test_options))
   = Some (doc [processed_node ''/a.jpg'' ''A'' ''a'', processed_node ''/a.jpg'' ''A'' ''a''])"
  by code_simp

lemma tryProcessImage_resolve_fails:
  "resolvePublicPath w src ctx = Inl d \<Longrightarrow> tryProcessImage w opts ctx a src st = (Inl d, st)"
  by (simp add: tryProcessImage_def)

lemma tryProcessImage_process_fails:
  assumes "resolvePublicPath w src ctx = Inr p"
    and "\<not> fst (cache_has (clock w (ticks st)) (''image:'' @ p) (cache st))"
    and "process w opts p (path_join [resourcePath ctx, ''..'', outputDir opts]) = Inl d"
  shows "tryProcessImage w opts ctx a src st =
           (Inl d, st\<lparr>cache := snd (cache_has (clock w (ticks st)) (''image:'' @ p) (cache st)),
                      ticks := ticks st + 1, invocations := invocations st @ [p]\<rparr>)"
  using assms
  by (cases "cache_has (clock w (ticks st)) (''image:'' @ p) (cache st)")
     (simp add: tryProcessImage_def Let_def)

lemma processNode_leaf_image:
  assumes "map_of a ''src'' = Some src" and "truthy src"
  shows "processNode w opts ctx (Node ''image'' (Some a) None) st =
           (case processImage w opts ctx a st of (a', st') \<Rightarrow> (Node ''image'' (Some a') None, st'))"
  using assms by (simp add: isImageNode_def split: prod.splits)

text \<open>
  C3. An image node (its \<open>src\<close> truthy and not yet in \<open>#processed\<close>) fails when the
  path cannot be resolved, or when the cache has no entry and the variant generator
  rejects (type detection, metadata or writing). Then \<open>#processImage\<close> returns the
  attributes as they were, exactly one record with the message
  \<open>Failed to process image {src}: {detail}\<close> is appended to the errors, the set of
  processed sources is as before, and the nodes after it in the same list are
  processed from that state. The pass has no other outcome than a result: nothing
  is thrown for the failure.
\<close>

theorem failure_isolation:
  assumes "map_of a ''src'' = Some src" and "truthy src" and "src \<notin> set (processed st)"
    and "resolvePublicPath w src ctx = Inl detail \<or>
         (\<exists>p. resolvePublicPath w src ctx = Inr p \<and>
              \<not> fst (cache_has (clock w (ticks st)) (''image:'' @ p) (cache st)) \<and>
              process w opts p (path_join [resourcePath ctx, ''..'', outputDir opts]) = Inl detail)"
  shows "\<exists>st1. processImage w opts ctx a st = (a, st1) \<and>
           errors st1 = errors st @
             [\<lparr>message = ''Failed to process image '' @ to_string src @ '': '' @ detail\<rparr>] \<and>
           processed st1 = processed st \<and>
           (\<forall>rest. processChildren w opts ctx (Node ''image'' (Some a) None # rest) st =
              (case processChildren w opts ctx rest st1 of
                 (rest', st2) \<Rightarrow> (Node ''image'' (Some a) None # rest', st2)))"
proof -
  from assms(4) obtain st0 where t: "tryProcessImage w opts ctx a src st = (Inl detail, st0)"
    and e: "errors st0 = errors st" and p: "processed st0 = processed st"
  proof
    assume r: "resolvePublicPath w src ctx = Inl detail"
    show ?thesis
      by (rule that [of st]) (simp_all add: tryProcessImage_resolve_fails [OF r])
  next
    assume "\<exists>p. resolvePublicPath w src ctx = Inr p \<and>
              \<not> fst (cache_has (clock w (ticks st)) (''image:'' @ p) (cache st)) \<and>
              process w opts p (path_join [resourcePath ctx, ''..'', outputDir opts]) = Inl detail"
    then obtain p where r: "resolvePublicPath w src ctx = Inr p"
      and m: "\<not> fst (cache_has (clock w (ticks st)) (''image:'' @ p) (cache st))"
      and f: "process w opts p (path_join [resourcePath ctx, ''..'', outputDir opts]) = Inl detail"
      by blast
    show ?thesis
      by (rule that [OF tryProcessImage_process_fails [OF r m f]]) simp_all
  qed
  let ?st1 = "addError st0 (''Failed to process image '' @ to_string src @ '': '' @ detail)"
  have i: "processImage w opts ctx a st = (a, ?st1)"
    using assms(1-3) t by (simp add: processImage_def)
  have "errors ?st1 = errors st @
      [\<lparr>message = ''Failed to process image '' @ to_string src @ '': '' @ detail\<rparr>]"
    using e by (simp add: addError_def)
  moreover have "processed ?st1 = processed st"
    using p by (simp add: addError_def)
  moreover have "\<forall>rest. processChildren w opts ctx (Node ''image'' (Some a) None # rest) st =
              (case processChildren w opts ctx rest ?st1 of
                 (rest', st2) \<Rightarrow> (Node ''image'' (Some a) None # rest', st2))"
    using i by (simp add: processNode_leaf_image [OF assms(1,2)] del: processNode.simps)
  ultimately show ?thesis using i by blast
qed


theorem failure_isolation_witness:
  "(\<exists>st1. processImage missing_world test_options test_context
            [(''src'', AStr ''/nonexistent.jpg''), (''alt'', AStr ''Missing image'')]
            (new_plugin test_options)
          = ([(''src'', AStr ''/nonexistent.jpg''), (''alt'', AStr ''Missing image'')], st1) \<and>
         errors st1 =
           [\<lparr>message = ''Failed to process image /nonexistent.jpg: ENOENT: no such file or directory''\<rparr>] \<and>
         processChildren missing_world test_options test_context
            [image_node ''/nonexistent.jpg'' ''Missing image'', image_node ''/test.jpg'' ''t'']
            (new_plugin test_options)
          = (case processChildren missing_world test_options test_context
                    [image_node ''/test.jpg'' ''t''] st1 of
               (rest', st2) \<Rightarrow> (image_node ''/nonexistent.jpg'' ''Missing image'' # rest', st2)))"
proof -
  let ?a = "[(''src'', AStr ''/nonexistent.jpg''), (''alt'', AStr ''Missing image'')]"
  have 1: "map_of ?a ''src'' = Some (AStr ''/nonexistent.jpg'')" by simp
  have 2: "truthy (AStr ''/nonexistent.jpg'')" by simp
  have 3: "AStr ''/nonexistent.jpg'' \<notin> set (processed (new_plugin test_options))"
    by (simp add: new_plugin_def)
  have r: "resolvePublicPath missing_world (AStr ''/nonexistent.jpg'') test_context
             = Inr ''/site/public/nonexistent.jpg''"
    by code_simp
  have m: "\<not> fst (cache_has (clock missing_world (ticks (new_plugin test_options)))
                  (''image:'' @ ''/site/public/nonexistent.jpg'')
                  (cache (new_plugin test_options)))"
    by code_simp
  have f: "process missing_world test_options ''/site/public/nonexistent.jpg''
             (path_join [resourcePath test_context, ''..'', outputDir test_options])
           = Inl ''ENOENT: no such file or directory''"
    by code_simp
  from r m f have 4: "resolvePublicPath missing_world (AStr ''/nonexistent.jpg'') test_context
           = Inl ''ENOENT: no such file or directory'' \<or>
         (\<exists>p. resolvePublicPath missing_world (AStr ''/nonexistent.jpg'') test_context = Inr p \<and>
              \<not> fst (cache_has (clock missing_world (ticks (new_plugin test_options)))
                       (''image:'' @ p) (cache (new_plugin test_options))) \<and>
              process missing_world test_options p
                (path_join [resourcePath test_context, ''..'', outputDir test_options])
              = Inl ''ENOENT: no such file or directory'')"
    by blast
  from failure_isolation [OF 1 2 3 4] obtain st1
    where a: "processImage missing_world test_options test_context ?a (new_plugin test_options)
                = (?a, st1)"
      and b: "errors st1 = errors (new_plugin test_options) @
                [\<lparr>message = ''Failed to process image '' @ to_string (AStr ''/nonexistent.jpg'')
                    @ '': '' @ ''ENOENT: no such file or directory''\<rparr>]"
      and c: "\<forall>rest. processChildren missing_world test_options test_context
                   (Node ''image'' (Some ?a) None # rest) (new_plugin test_options) =
                 (case processChildren missing_world test_options test_context rest st1 of
                    (rest', st2) \<Rightarrow> (Node ''image'' (Some ?a) None # rest', st2))"
    by blast
  have b': "errors st1 =
      [\<lparr>message = ''Failed to process image /nonexistent.jpg: ENOENT: no such file or directory''\<rparr>]"
    using b by (simp add: new_plugin_def)
  have c': "processChildren missing_world test_options test_context
            [image_node ''/nonexistent.jpg'' ''Missing image'', image_node ''/test.jpg'' ''t'']
            (new_plugin test_options)
          = (case processChildren missing_world test_options test_context
                    [image_node ''/test.jpg'' ''t''] st1 of
               (rest', st2) \<Rightarrow> (image_node ''/nonexistent.jpg'' ''Missing image'' # rest', st2))"
    using c unfolding image_node_def by (rule spec)
  from a b' c' show ?thesis by blast
qed

lemma spread_Cons: "spread a ((k, v) # b) = spread (AList.update k v a) b"
  by (simp add: spread_def)

lemma map_of_spread:
  "distinct (map fst b) \<Longrightarrow> map_of (spread a b) = map_of a ++ map_of b"
proof (induction b arbitrary: a)
  case Nil
  then show ?case by (simp add: spread_def)
next
  case (Cons kv b)
  obtain k v where kv: "kv = (k, v)" by (cases kv)
  from Cons.prems have nk: "map_of b k = None" and d: "distinct (map fst b)"
    by (auto simp add: kv map_of_eq_None_iff)
  have "map_of (spread a (kv # b)) = (map_of a)(k \<mapsto> v) ++ map_of b"
    unfolding kv spread_Cons by (simp only: Cons.IH [OF d] update_conv')
  also have "\<dots> = map_of a ++ map_of (kv # b)"
    using nk by (auto simp add: kv map_add_def fun_eq_iff split: option.splits)
  finally show ?case .
qed

lemma distinct_spread: "distinct (map fst a) \<Longrightarrow> distinct (map fst (spread a b))"
proof (induction b arbitrary: a)
  case Nil
  then show ?case by (simp add: spread_def)
next
  case (Cons kv b)
  obtain k v where kv: "kv = (k, v)" by (cases kv)
  show ?case unfolding kv spread_Cons
    by (rule Cons.IH) (simp add: distinct_update Cons.prems)
qed

lemma processed_attrs_src:
  "map_of (processed_attrs a r src) ''src'' = map_of a ''src''"
  by (simp add: processed_attrs_def map_of_spread map_add_def)

lemma distinct_processed_attrs:
  "distinct (map fst a) \<Longrightarrow> distinct (map fst (processed_attrs a r src))"
  by (simp add: processed_attrs_def distinct_spread)

lemma extends_refl: "extends w opts ctx st st"
  by (simp add: extends_def)

lemma extends_trans:
  "extends w opts ctx st1 st2 \<Longrightarrow> extends w opts ctx st2 st3 \<Longrightarrow> extends w opts ctx st1 st3"
  unfolding extends_def by blast

lemma settled_extends:
  "settled w opts ctx src st \<Longrightarrow> extends w opts ctx st st' \<Longrightarrow> settled w opts ctx src st'"
  unfolding settled_def cannot_succeed_def extends_def by blast


lemma consistent_new_plugin: "consistent w opts (new_plugin opts)"
  by (simp add: consistent_def new_plugin_def Cache_def)

lemma cache_get_consistent:
  assumes "consistent w opts st" and "never_expires w opts"
  shows "cache_get (clock w i) key (cache st) = (cached st key, cache st)"
proof (cases "map_of (store (cache st)) (keyPrefix key)")
  case None
  then show ?thesis by (simp add: cache_get_def keyv_get_def cached_def)
next
  case (Some e)
  with assms(1) obtain j where T: "timestamp (item e) = clock w j"
    and x: "expires e = (if cacheTimeout opts = 0 then None
                         else Some (timestamp (item e) + cacheTimeout opts))"
    and t: "ttl (cache st) = cacheTimeout opts"
    unfolding consistent_def by blast
  from assms(2) have le: "clock w i - clock w j \<le> cacheTimeout opts"
    unfolding never_expires_def by blast
  show ?thesis
    using Some T x t le
    by (simp add: cache_get_def keyv_get_def cached_def isExpired_def)
qed

lemma cache_has_consistent:
  assumes "consistent w opts st" and "never_expires w opts"
  shows "cache_has (clock w i) key (cache st) = (cached st key \<noteq> None, cache st)"
  by (simp add: cache_has_def cache_get_consistent [OF assms])

lemma tryProcessImage_consistent:
  assumes "consistent w opts st" and "never_expires w opts"
    and "resolvePublicPath w src ctx = Inr p"
  shows "tryProcessImage w opts ctx a src st =
    (case cached st (''image:'' @ p) of
       Some v \<Rightarrow> (Inr (spread a v), st\<lparr>ticks := ticks st + 2\<rparr>)
     | None \<Rightarrow>
         (case process w opts p (path_join [resourcePath ctx, ''..'', outputDir opts]) of
            Inl err \<Rightarrow>
              (Inl err, st\<lparr>ticks := ticks st + 1, invocations := invocations st @ [p]\<rparr>)
          | Inr r \<Rightarrow>
              (Inr (processed_attrs a r src),
               st\<lparr>cache := cache_set (clock w (ticks st + 1)) (''image:'' @ p)
                               (processed_attrs a r src) (cache st),
                  ticks := ticks st + 2,
                  invocations := invocations st @ [p],
                  processed := set_add src (processed st)\<rparr>)))"
  by (simp add: tryProcessImage_def Let_def assms(3)
      cache_has_consistent [OF assms(1,2)] cache_get_consistent [OF assms(1,2)]
      split: option.splits sum.splits)


lemma consistent_same:
  "cache st' = cache st \<Longrightarrow> processed st' = processed st \<Longrightarrow>
     consistent w opts st' = consistent w opts st"
  by (simp add: consistent_def)

lemma extends_same:
  "cache st' = cache st \<Longrightarrow> processed st' = processed st \<Longrightarrow> extends w opts ctx st st'"
  by (simp add: extends_def cached_def)

lemma settled_same:
  "cache st' = cache st \<Longrightarrow> processed st' = processed st \<Longrightarrow>
     settled w opts ctx src st' = settled w opts ctx src st"
  by (simp add: settled_def cannot_succeed_def cached_def)

lemma cached_cache_set:
  "cached (st\<lparr>cache := cache_set now key v (cache st), ticks := n, invocations := l,
              processed := ps\<rparr>) k =
     (if keyPrefix k = keyPrefix key then Some v else cached st k)"
  by (simp add: cached_def map_of_keyv_set cache_set_def)

lemma set_set_add: "set (set_add x xs) = insert x (set xs)"
  by (auto simp add: set_add_def)

lemma consistent_cache_set:
  assumes "consistent w opts st" and "distinct (map fst v)"
    and "map_of v ''src'' = Some src"
  shows "consistent w opts
           (st\<lparr>cache := cache_set (clock w j) key v (cache st), ticks := n, invocations := l,
               processed := set_add src (processed st)\<rparr>)"
    (is "consistent w opts ?st'")
proof -
  from assms(1) have t: "ttl (cache st) = cacheTimeout opts"
    and old: "\<And>k e. map_of (store (cache st)) k = Some e \<Longrightarrow>
        (\<exists>j. timestamp (item e) = clock w j) \<and>
        expires e = (if cacheTimeout opts = 0 then None
                     else Some (timestamp (item e) + cacheTimeout opts)) \<and>
        distinct (map fst (evalue (item e))) \<and>
        (\<exists>src. map_of (evalue (item e)) ''src'' = Some src \<and> src \<in> set (processed st))"
    unfolding consistent_def by blast+
  have p: "set (processed ?st') = insert src (set (processed st))"
    by (simp add: set_set_add)
  have m: "map_of (store (cache ?st')) =
      (map_of (store (cache st)))(keyPrefix key \<mapsto>
        \<lparr>item = \<lparr>evalue = v, timestamp = clock w j\<rparr>,
         expires = (if cacheTimeout opts = 0 then None else Some (clock w j + cacheTimeout opts))\<rparr>)"
    by (simp add: map_of_cache_set t)
  have t': "ttl (cache ?st') = cacheTimeout opts" by (simp add: t)
  have new: "(\<exists>j. timestamp (item e) = clock w j) \<and>
        expires e = (if cacheTimeout opts = 0 then None
                     else Some (timestamp (item e) + cacheTimeout opts)) \<and>
        distinct (map fst (evalue (item e))) \<and>
        (\<exists>src. map_of (evalue (item e)) ''src'' = Some src \<and> src \<in> set (processed ?st'))"
    if e: "map_of (store (cache ?st')) k = Some e" for k e
  proof (cases "k = keyPrefix key")
    case True
    with e m have "e = \<lparr>item = \<lparr>evalue = v, timestamp = clock w j\<rparr>,
       expires = (if cacheTimeout opts = 0 then None else Some (clock w j + cacheTimeout opts))\<rparr>"
      by simp
    then show ?thesis using assms(2,3) p by auto
  next
    case False
    with e m have "map_of (store (cache st)) k = Some e" by simp
    from old [OF this] show ?thesis using p by auto
  qed
  show ?thesis
    unfolding consistent_def using t' new by blast
qed

lemma processImage_step:
  assumes c: "consistent w opts st" and ne: "never_expires w opts"
    and d: "distinct (map fst a)"
    and r: "processImage w opts ctx a st = (a', st')"
  shows "consistent w opts st' \<and> extends w opts ctx st st' \<and>
         (\<forall>s. map_of a' ''src'' = Some s \<longrightarrow> truthy s \<longrightarrow> settled w opts ctx s st')"
proof (cases "map_of a ''src''")
  case None
  with r have "a' = a" "st' = st" by (simp_all add: processImage_def)
  then show ?thesis using c None by (simp add: extends_refl)
next
  case (Some src)
  show ?thesis
  proof (cases "\<not> truthy src \<or> src \<in> set (processed st)")
    case True
    with r Some have "a' = a" "st' = st" by (auto simp add: processImage_def)
    then show ?thesis using c Some True by (auto simp add: extends_refl settled_def)
  next
    case False
    let ?msg = "\<lambda>err. ''Failed to process image '' @ to_string src @ '': '' @ err"
    let ?out = "path_join [resourcePath ctx, ''..'', outputDir opts]"
    have unfold: "processImage w opts ctx a st =
        (case tryProcessImage w opts ctx a src st of
           (Inl err, st1) \<Rightarrow> (a, addError st1 (?msg err))
         | (Inr a1, st1) \<Rightarrow> (a1, st1))"
      using Some False by (simp add: processImage_def)
    show ?thesis
    proof (cases "resolvePublicPath w src ctx")
      case (Inl err)
      then have "tryProcessImage w opts ctx a src st = (Inl err, st)"
        by (simp add: tryProcessImage_def)
      with r unfold have a': "a' = a" and st': "st' = addError st (?msg err)" by simp_all
      have same: "cache st' = cache st" "processed st' = processed st"
        by (simp_all add: st' addError_def)
      have "settled w opts ctx src st'"
        using Inl by (simp add: settled_def cannot_succeed_def)
      then show ?thesis
        using c Some by (simp add: a' consistent_same [OF same] extends_same [OF same])
    next
      case (Inr p)
      note tp = tryProcessImage_consistent [OF c ne Inr]
      show ?thesis
      proof (cases "cached st (''image:'' @ p)")
        case hit: (Some v)
        with r unfold tp have a': "a' = spread a v" and st': "st' = st\<lparr>ticks := ticks st + 2\<rparr>"
          by simp_all
        have same: "cache st' = cache st" "processed st' = processed st"
          by (simp_all add: st')
        from hit obtain e
          where e: "map_of (store (cache st)) (keyPrefix (''image:'' @ p)) = Some e"
          and v: "v = evalue (item e)"
          by (auto simp add: cached_def)
        with c obtain s0 where dv: "distinct (map fst v)" and s0: "map_of v ''src'' = Some s0"
          and in0: "s0 \<in> set (processed st)"
          unfolding consistent_def by blast
        have "map_of a' ''src'' = Some s0"
          by (simp add: a' map_of_spread [OF dv] s0)
        moreover have "settled w opts ctx s0 st'"
          using in0 by (simp add: settled_def same)
        ultimately show ?thesis
          using c by (simp add: consistent_same [OF same] extends_same [OF same])
      next
        case miss: None
        show ?thesis
        proof (cases "process w opts p ?out")
          case fail: (Inl err)
          with r unfold tp miss have a': "a' = a"
            and st': "st' = addError (st\<lparr>ticks := ticks st + 1,
                                          invocations := invocations st @ [p]\<rparr>) (?msg err)"
            by simp_all
          have same: "cache st' = cache st" "processed st' = processed st"
            by (simp_all add: st' addError_def)
          have "cannot_succeed w opts ctx src st"
            using Inr fail miss by (auto simp add: cannot_succeed_def)
          then have "settled w opts ctx src st"
            by (simp add: settled_def)
          then have "settled w opts ctx src st'"
            by (simp only: settled_same [OF same])
          then show ?thesis
            using c Some by (simp add: a' consistent_same [OF same] extends_same [OF same])
        next
          case ok: (Inr res)
          let ?v = "processed_attrs a res src"
          have "processImage w opts ctx a st =
              (?v, st\<lparr>cache := cache_set (clock w (ticks st + 1)) (''image:'' @ p) ?v (cache st),
                       ticks := ticks st + 2,
                       invocations := invocations st @ [p],
                       processed := set_add src (processed st)\<rparr>)"
            unfolding unfold tp using miss ok by simp
          from trans [OF r [symmetric] this]
          have "a' = ?v \<and>
              st' = st\<lparr>cache := cache_set (clock w (ticks st + 1)) (''image:'' @ p) ?v (cache st),
                                ticks := ticks st + 2,
                                invocations := invocations st @ [p],
                                processed := set_add src (processed st)\<rparr>"
            by (simp only: prod.inject)
          then have a': "a' = ?v"
            and st': "st' = st\<lparr>cache := cache_set (clock w (ticks st + 1)) (''image:'' @ p) ?v (cache st),
                                ticks := ticks st + 2,
                                invocations := invocations st @ [p],
                                processed := set_add src (processed st)\<rparr>"
            by blast+
          have src': "map_of ?v ''src'' = Some src"
            by (simp add: processed_attrs_src Some)
          have 1: "consistent w opts st'"
            unfolding st'
            by (rule consistent_cache_set [OF c distinct_processed_attrs [OF d] src'])
          have 2: "extends w opts ctx st st'"
            unfolding extends_def
          proof (intro conjI allI impI)
            show "set (processed st) \<subseteq> set (processed st')"
              by (auto simp add: st' set_set_add)
          next
            fix q
            assume "\<exists>err. process w opts q ?out = Inl err"
              and n: "cached st (''image:'' @ q) = None"
            then have "q \<noteq> p" using ok by auto
            then show "cached st' (''image:'' @ q) = None"
              unfolding st' cached_cache_set using n by simp
          qed
          have 3: "settled w opts ctx src st'"
            by (simp add: settled_def st' set_set_add)
          show ?thesis using 1 2 3 src' by (simp add: a')
        qed
      qed
    qed
  qed
qed


lemma own_sources:
  "set (if isImageNode (Node t a c)
      then (case a of
              None \<Rightarrow> []
            | Some x \<Rightarrow> (case map_of x ''src'' of None \<Rightarrow> [] | Some src \<Rightarrow> [src]))
      else []) =
   {s. t = ''image'' \<and> (\<exists>x. a = Some x \<and> map_of x ''src'' = Some s \<and> truthy s)}"
proof (cases a)
  case None
  then show ?thesis by (simp add: isImageNode_def)
next
  case (Some x)
  show ?thesis
  proof (cases "map_of x ''src''")
    case None
    then show ?thesis using Some by (simp add: isImageNode_def)
  next
    case s: (Some v)
    show ?thesis
    proof (cases "t = ''image''")
      case False
      then show ?thesis by (simp add: isImageNode_def)
    next
      case True
      show ?thesis
      proof (cases "truthy v")
        case False
        then show ?thesis using Some s by (simp add: isImageNode_def)
      next
        case tv: True
        have "isImageNode (Node t a c)"
          using True tv Some s by (simp add: isImageNode_def)
        moreover have "{s. t = ''image'' \<and> (\<exists>x. a = Some x \<and> map_of x ''src'' = Some s \<and> truthy s)} = {v}"
          using True tv Some s by auto
        ultimately show ?thesis using Some s by simp
      qed
    qed
  qed
qed

lemma set_image_sources:
  "set (image_sources (Node t a c)) =
     {s. t = ''image'' \<and> (\<exists>x. a = Some x \<and> map_of x ''src'' = Some s \<and> truthy s)} \<union>
     (case c of None \<Rightarrow> {} | Some cs \<Rightarrow> set (image_sources_list cs))"
proof -
  have "set (case c of None \<Rightarrow> [] | Some cs \<Rightarrow> image_sources_list cs) =
        (case c of None \<Rightarrow> {} | Some cs \<Rightarrow> set (image_sources_list cs))"
    by (cases c) simp_all
  then show ?thesis
    by (simp only: image_sources.simps set_append own_sources)
qed

lemma processNode_own:
  assumes c: "consistent w opts st" and ne: "never_expires w opts"
    and wf: "case a of None \<Rightarrow> True | Some x \<Rightarrow> distinct (map fst x)"
    and own: "(if isImageNode (Node t a c)
            then (case a of
                    None \<Rightarrow> (a, st)
                  | Some x \<Rightarrow>
                      (case processImage w opts ctx x st of (x', st') \<Rightarrow> (Some x', st')))
            else (a, st)) = (a1, st1)"
  shows "consistent w opts st1 \<and> extends w opts ctx st st1 \<and>
         (\<forall>s x. t = ''image'' \<longrightarrow> a1 = Some x \<longrightarrow> map_of x ''src'' = Some s \<longrightarrow> truthy s \<longrightarrow>
                settled w opts ctx s st1)"
proof (cases "isImageNode (Node t a c)")
  case False
  with own have "a1 = a" "st1 = st" by simp_all
  then show ?thesis using c False by (auto simp add: extends_refl isImageNode_def)
next
  case True
  then obtain x where a: "a = Some x" by (auto simp add: isImageNode_def split: option.splits)
  obtain x' st' where p: "processImage w opts ctx x st = (x', st')"
    by (cases "processImage w opts ctx x st")
  with own True a have a1: "a1 = Some x'" and st1: "st1 = st'" by simp_all
  from wf a have "distinct (map fst x)" by simp
  from processImage_step [OF c ne this p] show ?thesis
    by (simp add: a1 st1)
qed

lemma pass_settles:
  "never_expires w opts \<Longrightarrow> consistent w opts st \<Longrightarrow> well_formed n \<Longrightarrow>
     processNode w opts ctx n st = (n', st') \<Longrightarrow>
     consistent w opts st' \<and> extends w opts ctx st st' \<and>
     (\<forall>s \<in> set (image_sources n'). settled w opts ctx s st')"
  and children_settle:
  "never_expires w opts \<Longrightarrow> consistent w opts st \<Longrightarrow> well_formed_list ns \<Longrightarrow>
     processChildren w opts ctx ns st = (ns', st') \<Longrightarrow>
     consistent w opts st' \<and> extends w opts ctx st st' \<and>
     (\<forall>s \<in> set (image_sources_list ns'). settled w opts ctx s st')"
proof (induction w opts ctx n st and w opts ctx ns st arbitrary: n' st' and ns' st'
    rule: processNode_processChildren.induct)
  case (1 w opts ctx t a c st)
  let ?own = "if isImageNode (Node t a c)
            then (case a of
                    None \<Rightarrow> (a, st)
                  | Some x \<Rightarrow>
                      (case processImage w opts ctx x st of (x', st') \<Rightarrow> (Some x', st')))
            else (a, st)"
  obtain a1 st1 where own: "?own = (a1, st1)" by (cases ?own)
  have wfa: "case a of None \<Rightarrow> True | Some x \<Rightarrow> distinct (map fst x)"
    using "1.prems"(3) by simp
  from processNode_own [OF "1.prems"(2,1) wfa own]
  have c1: "consistent w opts st1" and e1: "extends w opts ctx st st1"
    and s1: "\<And>s x. t = ''image'' \<Longrightarrow> a1 = Some x \<Longrightarrow> map_of x ''src'' = Some s \<Longrightarrow> truthy s \<Longrightarrow>
                settled w opts ctx s st1"
    by blast+
  have unfold: "processNode w opts ctx (Node t a c) st =
      (case c of
         None \<Rightarrow> (Node t a1 None, st1)
       | Some cs \<Rightarrow>
           (case processChildren w opts ctx cs st1 of
              (cs', st2) \<Rightarrow> (Node t a1 (Some cs'), st2)))"
    by (simp only: processNode.simps own prod.case)
  show ?case
  proof (cases c)
    case None
    with "1.prems"(4) unfold have n': "n' = Node t a1 None" and st': "st' = st1" by simp_all
    show ?thesis
      unfolding n' st' set_image_sources using c1 e1 s1 by auto
  next
    case (Some cs)
    obtain cs' st2 where k: "processChildren w opts ctx cs st1 = (cs', st2)"
      by (cases "processChildren w opts ctx cs st1")
    with "1.prems"(4) unfold Some have n': "n' = Node t a1 (Some cs')" and st': "st' = st2"
      by simp_all
    have wfc: "well_formed_list cs" using "1.prems"(3) Some by simp
    from "1.IH" [OF own [symmetric] Some "1.prems"(1) c1 wfc k]
    have c2: "consistent w opts st2" and e2: "extends w opts ctx st1 st2"
      and s2: "\<forall>s \<in> set (image_sources_list cs'). settled w opts ctx s st2"
      by blast+
    have "settled w opts ctx s st2"
      if "t = ''image''" "a1 = Some x" "map_of x ''src'' = Some s" "truthy s" for s x
      using settled_extends [OF s1 [OF that] e2] .
    then show ?thesis
      unfolding n' st' set_image_sources
      using c2 extends_trans [OF e1 e2] s2 by auto
  qed
next
  case (2 w opts ctx st)
  then show ?case by (auto simp add: extends_refl)
next
  case (3 w opts ctx n ns st)
  obtain n1 st1 where h: "processNode w opts ctx n st = (n1, st1)"
    by (cases "processNode w opts ctx n st")
  obtain ns1 st2 where k: "processChildren w opts ctx ns st1 = (ns1, st2)"
    by (cases "processChildren w opts ctx ns st1")
  from "3.prems"(4) h k have r: "ns' = n1 # ns1" "st' = st2" by simp_all
  from "3.prems"(3) have wfn: "well_formed n" and wfns: "well_formed_list ns" by simp_all
  from "3.IH"(1) [OF "3.prems"(1,2) wfn h]
  have c1: "consistent w opts st1" and e1: "extends w opts ctx st st1"
    and s1: "\<forall>s \<in> set (image_sources n1). settled w opts ctx s st1"
    by blast+
  from "3.IH"(2) [OF h [symmetric] "3.prems"(1) c1 wfns k]
  have c2: "consistent w opts st2" and e2: "extends w opts ctx st1 st2"
    and s2: "\<forall>s \<in> set (image_sources_list ns1). settled w opts ctx s st2"
    by blast+
  from s1 e2 have "\<forall>s \<in> set (image_sources n1). settled w opts ctx s st2"
    by (blast intro: settled_extends)
  then show ?case
    unfolding r using c2 extends_trans [OF e1 e2] s2 by auto
qed


lemma processNode_processed:
  "set (image_sources n) \<subseteq> set (processed st) \<Longrightarrow> processNode w opts ctx n st = (n, st)"
  and processChildren_processed:
  "set (image_sources_list ns) \<subseteq> set (processed st) \<Longrightarrow>
     processChildren w opts ctx ns st = (ns, st)"
proof (induction w opts ctx n st and w opts ctx ns st rule: processNode_processChildren.induct)
  case (1 w opts ctx t a c st)
  let ?own = "if isImageNode (Node t a c)
            then (case a of
                    None \<Rightarrow> (a, st)
                  | Some x \<Rightarrow>
                      (case processImage w opts ctx x st of (x', st') \<Rightarrow> (Some x', st')))
            else (a, st)"
  have img: "?own = (a, st)"
  proof (cases "isImageNode (Node t a c)")
    case False
    then show ?thesis by simp
  next
    case True
    then obtain x src where a: "a = Some x" and s: "map_of x ''src'' = Some src"
      by (auto simp add: isImageNode_def split: option.splits)
    with True "1.prems" have "src \<in> set (processed st)" by simp
    then show ?thesis using True a s by (simp add: processImage_processed)
  qed
  have unfold: "processNode w opts ctx (Node t a c) st =
      (case c of
         None \<Rightarrow> (Node t a None, st)
       | Some cs \<Rightarrow>
           (case processChildren w opts ctx cs st of
              (cs', st2) \<Rightarrow> (Node t a (Some cs'), st2)))"
    by (simp only: processNode.simps img prod.case)
  show ?case
  proof (cases c)
    case None
    show ?thesis by (subst unfold) (simp add: None)
  next
    case (Some cs)
    have sub: "set (image_sources_list cs) \<subseteq> set (processed st)"
    proof -
      have "set (image_sources (Node t a (Some cs))) \<subseteq> set (processed st)"
        using "1.prems" by (simp only: Some)
      then show ?thesis by (simp only: image_sources.simps option.case set_append) blast
    qed
    note ih = "1.IH"
    have kids: "processChildren w opts ctx cs st = (cs, st)"
      using ih [OF img [symmetric] Some] sub by blast
    show ?thesis by (subst unfold) (simp add: Some kids)
  qed
next
  case (2 w opts ctx st)
  then show ?case by simp
next
  case (3 w opts ctx n ns st)
  then show ?case by simp
qed

lemma pass_over_processed:
  "set (image_sources n) \<subseteq> set (processed st) \<Longrightarrow>
     processContent w opts ctx (Some n) st = (Some n, st)"
  by (simp add: processContent_def processNode_processed)

text \<open>
  A second pass over the very object that the first pass has changed. Let the
  attributes of every node be objects, let the plugin be in a consistent state (a
  new plugin is), and let no cache entry expire while it runs. If after a pass the
  store holds an entry for the source of every image node of the result, then the
  second pass returns the result as it is and leaves the state as it is. It does so
  without asking the cache: every source is in \<open>#processed\<close>.
\<close>

lemma second_pass_over_result:
  assumes ne: "never_expires w opts" and c: "consistent w opts st" and wf: "well_formed d"
    and first: "processContent w opts ctx (Some d) st = (Some d1, st1)"
    and hits: "\<forall>src \<in> set (image_sources d1).
                 \<exists>p. resolvePublicPath w src ctx = Inr p \<and> cached st1 (''image:'' @ p) \<noteq> None"
  shows "processContent w opts ctx (Some d1) st1 = (Some d1, st1)"
proof (cases "ntype d = ''doc''")
  case False
  with first have "d1 = d" "st1 = st" by (simp_all add: processContent_def)
  then show ?thesis using False by (simp add: processContent_def)
next
  case True
  with first have "processNode w opts ctx d st = (d1, st1)"
    by (simp add: processContent_def split: prod.splits)
  from pass_settles [OF ne c wf this]
  have s: "\<forall>src \<in> set (image_sources d1). settled w opts ctx src st1" by blast
  have "set (image_sources d1) \<subseteq> set (processed st1)"
  proof
    fix src
    assume m: "src \<in> set (image_sources d1)"
    with hits obtain p where p: "resolvePublicPath w src ctx = Inr p"
      and h: "cached st1 (''image:'' @ p) \<noteq> None" by blast
    then have "\<not> cannot_succeed w opts ctx src st1"
      unfolding cannot_succeed_def by simp
    with s m show "src \<in> set (processed st1)"
      unfolding settled_def by blast
  qed
  then show ?thesis by (rule pass_over_processed)
qed

lemma second_pass_over_result_example:
  "never_expires test_world test_options \<and>
   consistent test_world test_options (new_plugin test_options) \<and>
   well_formed (doc [image_node ''/test.jpg'' ''t'']) \<and>
   cached_first_pass =
     (Some (doc [processed_node ''/test.jpg'' ''t'' ''test'']), snd cached_first_pass) \<and>
   image_sources (doc [processed_node ''/test.jpg'' ''t'' ''test'']) = [AStr ''/test.jpg''] \<and>
   resolvePublicPath test_world (AStr ''/test.jpg'') test_context = Inr ''/site/public/test.jpg'' \<and>
   cached (snd cached_first_pass) ''image:/site/public/test.jpg'' \<noteq> None \<and>
   processContent test_world test_options test_context
     (Some (doc [processed_node ''/test.jpg'' ''t'' ''test''])) (snd cached_first_pass)
     = (Some (doc [processed_node ''/test.jpg'' ''t'' ''test'']), snd cached_first_pass)"
proof -
  let ?d1 = "doc [processed_node ''/test.jpg'' ''t'' ''test'']"
  let ?st1 = "\<lparr>cache = cache_set 0 ''image:/site/public/test.jpg''
                        (the (nattrs (processed_node ''/test.jpg'' ''t'' ''test'')))
                        (Cache 604800000),
               processed = [AStr ''/test.jpg''], errors = [], ticks = 2,
               invocations = [''/site/public/test.jpg'']\<rparr>"
  have ne: "never_expires test_world test_options"
    by (simp add: never_expires_def test_world_def test_options_def)
  have c: "consistent test_world test_options (new_plugin test_options)"
    by (rule consistent_new_plugin)
  have wf: "well_formed (doc [image_node ''/test.jpg'' ''t''])" by code_simp
  have e: "cached_first_pass = (Some ?d1, ?st1)" by code_simp
  have fs: "fst cached_first_pass = Some ?d1" unfolding e by (rule fst_conv)
  have st1: "snd cached_first_pass = ?st1" unfolding e by (rule snd_conv)
  have f: "cached_first_pass = (Some ?d1, snd cached_first_pass)"
    using fs by (metis prod.collapse)
  have first: "processContent test_world test_options test_context
      (Some (doc [image_node ''/test.jpg'' ''t''])) (new_plugin test_options) =
      (Some ?d1, snd cached_first_pass)"
    using f by (simp only: cached_first_pass_def [symmetric])
  have i: "image_sources ?d1 = [AStr ''/test.jpg'']" by code_simp
  have r: "resolvePublicPath test_world (AStr ''/test.jpg'') test_context
             = Inr ''/site/public/test.jpg''"
    by code_simp
  have "cached ?st1 ''image:/site/public/test.jpg'' \<noteq> None" by code_simp
  then have h: "cached (snd cached_first_pass) ''image:/site/public/test.jpg'' \<noteq> None"
    unfolding st1 .
  have hits: "\<forall>src \<in> set (image_sources ?d1).
      \<exists>p. resolvePublicPath test_world src test_context = Inr p \<and>
          cached (snd cached_first_pass) (''image:'' @ p) \<noteq> None"
    using r h by (simp add: i)
  from second_pass_over_result [OF ne c wf first hits]
  show ?thesis using ne c wf f i r h by blast
qed

text \<open>
  C2, on the code. Two runs in which the second pass finds a live cache entry for
  the source of every image, and the attributes after it are not those of the first
  pass.

  The first: a new plugin processes a document with the image \<open>/test.jpg\<close> while the
  clock stands still, and then a copy of the same document as it was read. The
  cache holds the entry of the file, but the second pass returns at
  \<open>this.#processed.has(src)\<close> before it asks the cache: the image leaves it as it
  came, without \<open>srcset\<close>.

  The second: the second pass gets the very object the first has changed. With a
  lifetime of one millisecond the entry of the file expires in the first pass
  between the \<open>has\<close> and the \<open>get\<close> of the second image, which is left as it came
  and is not put into \<open>#processed\<close>; the third image caches the file again. The
  second pass merges that entry into the second image, whose attributes are then no
  more what the first pass left.
\<close>

theorem second_pass_differs:
  "fst cached_first_pass = Some (doc [processed_node ''/test.jpg'' ''t'' ''test'']) \<and>
   fst (cache_has (clock test_world (ticks (snd cached_first_pass)))
          ''image:/site/public/test.jpg'' (cache (snd cached_first_pass))) \<and>
   processContent test_world test_options test_context
       (Some (doc [image_node ''/test.jpg'' ''t''])) (snd cached_first_pass) =
     (Some (doc [image_node ''/test.jpg'' ''t'']), snd cached_first_pass) \<and>
   fst race_first_pass =
     Some (doc [processed_node ''/a.jpg'' ''A'' ''a'', image_node ''/./a.jpg'' ''B'',
                processed_node ''/x/../a.jpg'' ''C'' ''a'']) \<and>
   fst (cache_has (clock race_world (ticks (snd race_first_pass)))
          ''image:/site/public/a.jpg'' (cache (snd race_first_pass))) \<and>
   fst (processContent race_world short_ttl_options test_context
          (fst race_first_pass) (snd race_first_pass)) =
     Some (doc [processed_node ''/a.jpg'' ''A'' ''a'', processed_node ''/x/../a.jpg'' ''C'' ''a'',
                processed_node ''/x/../a.jpg'' ''C'' ''a''])"
proof -
  have first: "fst cached_first_pass = Some (doc [processed_node ''/test.jpg'' ''t'' ''test''])"
    by code_simp
  have live: "fst (cache_has (clock test_world (ticks (snd cached_first_pass)))
          ''image:/site/public/test.jpg'' (cache (snd cached_first_pass)))"
    by code_simp
  have copy: "processContent test_world test_options test_context
       (Some (doc [image_node ''/test.jpg'' ''t''])) (snd cached_first_pass) =
     (Some (doc [image_node ''/test.jpg'' ''t'']), snd cached_first_pass)"
    by code_simp
  have race: "fst race_first_pass =
     Some (doc [processed_node ''/a.jpg'' ''A'' ''a'', image_node ''/./a.jpg'' ''B'',
                processed_node ''/x/../a.jpg'' ''C'' ''a''])"
    by code_simp
  have again: "fst (cache_has (clock race_world (ticks (snd race_first_pass)))
          ''image:/site/public/a.jpg'' (cache (snd race_first_pass)))"
    by code_simp
  have merged: "fst (processContent race_world short_ttl_options test_context
          (fst race_first_pass) (snd race_first_pass)) =
     Some (doc [processed_node ''/a.jpg'' ''A'' ''a'', processed_node ''/x/../a.jpg'' ''C'' ''a'',
                processed_node ''/x/../a.jpg'' ''C'' ''a''])"
    by code_simp
  from first live copy race again merged show ?thesis by (intro conjI)
qed

end
